theory Spec2Isabelle
  imports Complex_Main "HOL-Library.Multiset"
begin

section \<open>Data model of main.go\<close>

text \<open>
  The three structs of main.go (lines 60-77). Every field is an int64 in the source and an
  unbounded \<open>int\<close> here, and so is every local variable of the schedulers. Go's int64
  arithmetic wraps around; the model does not. The two compute the same values as long as
  no operation of a run leaves the int64 range. The theorems that state a bound, an order
  or the termination of a loop for every input therefore carry the hypothesis
  \<open>bounded_input\<close> (defined below, with the bounds that it gives on the clocks), and state
  that the values they are about lie within the range. The other theorems evaluate the
  schedulers on small concrete inputs, or compare two runs tick by tick without using any
  property of the arithmetic, or state an equation between values that the code obtains by
  one and the same expression, or say nothing about a number.
\<close>

record Process =
  ProcessID :: int
  ArrivalTime :: int
  BurstDuration :: int
  Priority :: int

record TimeSlice =
  PID :: int
  Start :: int
  Stop :: int

record ProcessData =
  waitingTime :: int
  turnaroundTime :: int
  exit :: int

text \<open>
  One line of the schedule table. The source builds a \<open>[]string\<close> of seven cells with
  \<open>fmt.Sprint\<close>; the model keeps the seven integers that are printed, in the same order
  (id, priority, burst, arrival, wait, turnaround, exit).
\<close>

record row =
  row_id :: int
  row_priority :: int
  row_burst :: int
  row_arrival :: int
  row_wait :: int
  row_turnaround :: int
  row_exit :: int

text \<open>
  The float64 quotient of two integer-valued operands. Go does not panic on a float
  division by zero: it yields NaN or an infinity, which \<open>None\<close> stands for. Rounding is
  not modelled: a finite quotient is the exact rational.
\<close>

definition fdiv :: "int \<Rightarrow> int \<Rightarrow> rat option" where
  "fdiv a b = (if b = 0 then None else Some (of_int a / of_int b))"

text \<open>
  What a scheduler hands to \<open>outputGantt\<close> and \<open>outputSchedule\<close>, together with the
  contents of the caller's \<open>processes\<close> slice when the scheduler returns (the slice shares
  its backing array with the caller, so writes through it are visible there).
\<close>

record result =
  out_gantt :: "TimeSlice list"
  out_schedule :: "row list"
  out_aveWait :: "rat option"
  out_aveTurnaround :: "rat option"
  out_aveThroughput :: "rat option"
  out_processes :: "Process list"

section \<open>FCFSSchedule (main.go, lines 85-143)\<close>

text \<open>The local variables of FCFSSchedule that live across loop iterations.\<close>

record fcfs_state =
  f_serviceTime :: int
  f_totalWait :: int
  f_totalTurnaround :: int
  f_lastCompletion :: int
  f_waitingTime :: int
  f_schedule :: "row list"
  f_gantt :: "TimeSlice list"

definition fcfs_init :: fcfs_state where
  "fcfs_init = \<lparr>f_serviceTime = 0, f_totalWait = 0, f_totalTurnaround = 0,
     f_lastCompletion = 0, f_waitingTime = 0, f_schedule = [], f_gantt = []\<rparr>"

text \<open>
  The body of the loop at lines 96-131 for the process \<open>p = processes[i]\<close>. The row is
  stored at index \<open>i\<close> of \<open>schedule\<close>, which is the next free position of the list here.
  The five sums and differences are int64 operations in the source; lemmas
  \<open>fcfs_bounded_wait\<close> and \<open>fcfs_bounded_gantt\<close> bound the waiting times and the slice
  times on inputs that satisfy \<open>bounded_input\<close>.
\<close>

definition fcfs_step :: "fcfs_state \<Rightarrow> Process \<Rightarrow> fcfs_state" where
  "fcfs_step s p =
     (let waitingTime = (if ArrivalTime p > 0 then f_serviceTime s - ArrivalTime p
                         else f_waitingTime s);
          start = waitingTime + ArrivalTime p;
          turnaround = BurstDuration p + waitingTime;
          completion = BurstDuration p + ArrivalTime p + waitingTime;
          serviceTime = f_serviceTime s + BurstDuration p
      in \<lparr>f_serviceTime = serviceTime,
          f_totalWait = f_totalWait s + waitingTime,
          f_totalTurnaround = f_totalTurnaround s + turnaround,
          f_lastCompletion = completion,
          f_waitingTime = waitingTime,
          f_schedule = f_schedule s @
            [\<lparr>row_id = ProcessID p, row_priority = Priority p,
              row_burst = BurstDuration p, row_arrival = ArrivalTime p,
              row_wait = waitingTime, row_turnaround = turnaround,
              row_exit = completion\<rparr>],
          f_gantt = f_gantt s @ [\<lparr>PID = ProcessID p, Start = start, Stop = serviceTime\<rparr>]\<rparr>)"

text \<open>The waiting time that the step at process \<open>p\<close> assigns (lines 98-100).\<close>

definition fcfs_wait :: "fcfs_state \<Rightarrow> Process \<Rightarrow> int" where
  "fcfs_wait s p = (if ArrivalTime p > 0 then f_serviceTime s - ArrivalTime p else f_waitingTime s)"

definition FCFSSchedule :: "Process list \<Rightarrow> result" where
  "FCFSSchedule processes =
     (let s = foldl fcfs_step fcfs_init processes;
          count = int (length processes)
      in \<lparr>out_gantt = f_gantt s,
          out_schedule = f_schedule s,
          out_aveWait = fdiv (f_totalWait s) count,
          out_aveTurnaround = fdiv (f_totalTurnaround s) count,
          out_aveThroughput = fdiv count (f_lastCompletion s),
          out_processes = processes\<rparr>)"

text \<open>Shorthand for a process literal: id, arrival, burst, priority.\<close>

definition proc :: "int \<Rightarrow> int \<Rightarrow> int \<Rightarrow> int \<Rightarrow> Process" where
  "proc i a b q = \<lparr>ProcessID = i, ArrivalTime = a, BurstDuration = b, Priority = q\<rparr>"

section \<open>SJFSchedule and SJFPrioritySchedule (main.go, lines 145-317)\<close>

text \<open>
  \<open>noMoreProcesses\<close> (lines 146-153): false at the first entry whose exit time is still 0.
\<close>

fun noMoreProcesses :: "ProcessData list \<Rightarrow> bool" where
  "noMoreProcesses [] = True"
| "noMoreProcesses (d # pd) = (if exit d = 0 then False else noMoreProcesses pd)"

text \<open>
  The two functions have the same text up to the names of two locals (\<open>pd\<close> and \<open>current\<close>
  in SJFSchedule are \<open>tProcess\<close> and \<open>inc\<close> in SJFPrioritySchedule) and the condition of the
  inner \<open>if\<close> of the second scan (line 193, lines 274-276). They are modelled by one
  simulation that takes that condition as a parameter.

  The state of the simulation loop: \<open>temp\<close> is the private copy made by \<open>make\<close> and
  \<open>copy\<close> (lines 163-164), whose burst fields count down; the caller's \<open>processes\<close> is only
  read, and is an argument of the functions below.

  The source indexes \<open>temp\<close>, \<open>pd\<close> and \<open>processes\<close> with the loop index and with
  \<open>current\<close>. The three have the length of the input in every state of the loop and
  \<open>current\<close> is 0 or an index that the second scan has visited, so no access is out of
  range while the loop runs (lemmas \<open>sjf_basic_tick\<close> and \<open>tick_current_less\<close>); the model
  reads them with \<open>!\<close>.
\<close>

record sjf_state =
  s_temp :: "Process list"
  s_pd :: "ProcessData list"
  s_time :: int
  s_start :: int
  s_current :: nat
  s_gantt :: "TimeSlice list"

definition sjf_init :: "Process list \<Rightarrow> sjf_state" where
  "sjf_init processes =
     \<lparr>s_temp = processes,
      s_pd = replicate (length processes) \<lparr>waitingTime = 0, turnaroundTime = 0, exit = 0\<rparr>,
      s_time = 0, s_start = 0, s_current = 0, s_gantt = []\<rparr>"

text \<open>
  One iteration of the first scan (lines 177-189, 258-270), at \<open>index\<close>; \<open>swapped\<close> is
  threaded through.
\<close>

definition sjf_visit :: "nat \<Rightarrow> sjf_state \<times> bool \<Rightarrow> sjf_state \<times> bool" where
  "sjf_visit index = (\<lambda>(s, swapped).
     if ArrivalTime (s_temp s ! index) < s_time s then
       if index \<noteq> s_current s \<and> exit (s_pd s ! index) = 0 then
         (s\<lparr>s_pd := (s_pd s)[index := (s_pd s ! index)
                \<lparr>waitingTime := waitingTime (s_pd s ! index) + 1\<rparr>]\<rparr>, swapped)
       else if index = s_current s then
         (let temp = (s_temp s)[index := (s_temp s ! index)
                \<lparr>BurstDuration := BurstDuration (s_temp s ! index) - 1\<rparr>]
          in if BurstDuration (temp ! index) = 0
             then (s\<lparr>s_temp := temp,
                      s_pd := (s_pd s)[index := (s_pd s ! index)\<lparr>exit := s_time s\<rparr>]\<rparr>, True)
             else (s\<lparr>s_temp := temp\<rparr>, swapped))
       else (s, swapped)
     else (s, swapped))"

definition sjf_account :: "sjf_state \<Rightarrow> sjf_state \<times> bool" where
  "sjf_account s = foldl (\<lambda>acc index. sjf_visit index acc) (s, False) [0..<length (s_pd s)]"

text \<open>The condition of line 193 (SJFSchedule), for the candidate \<open>index\<close>.\<close>

definition sjf_cond :: "sjf_state \<Rightarrow> nat \<Rightarrow> bool" where
  "sjf_cond s index \<longleftrightarrow>
     BurstDuration (s_temp s ! index) < BurstDuration (s_temp s ! s_current s)
     \<or> BurstDuration (s_temp s ! s_current s) < 1"

text \<open>The condition of lines 274-276 (SJFPrioritySchedule).\<close>

definition sjfp_cond :: "sjf_state \<Rightarrow> nat \<Rightarrow> bool" where
  "sjfp_cond s index \<longleftrightarrow>
     BurstDuration (s_temp s ! index) < BurstDuration (s_temp s ! s_current s)
     \<or> BurstDuration (s_temp s ! s_current s) < 1
     \<or> (BurstDuration (s_temp s ! index) = BurstDuration (s_temp s ! s_current s)
        \<and> Priority (s_temp s ! index) > Priority (s_temp s ! s_current s))"

text \<open>
  One iteration of the second scan (lines 191-198, 272-281); \<open>new\<close> and \<open>swapped\<close> are
  threaded through.
\<close>

definition sjf_pick ::
  "(sjf_state \<Rightarrow> nat \<Rightarrow> bool) \<Rightarrow> Process list \<Rightarrow> sjf_state \<Rightarrow> nat \<Rightarrow> nat \<times> bool \<Rightarrow> nat \<times> bool" where
  "sjf_pick cond processes s index = (\<lambda>(new, swapped).
     if exit (s_pd s ! index) = 0 \<and> ArrivalTime (processes ! index) \<le> s_time s then
       if cond s index then (index, True) else (new, swapped)
     else (new, swapped))"

definition sjf_select ::
  "(sjf_state \<Rightarrow> nat \<Rightarrow> bool) \<Rightarrow> Process list \<Rightarrow> sjf_state \<Rightarrow> bool \<Rightarrow> nat \<times> bool" where
  "sjf_select cond processes s swapped =
     foldl (\<lambda>acc index. sjf_pick cond processes s index acc) (0, swapped) [0..<length processes]"

text \<open>
  Lines 199-209 (282-292): close the slice on a switch, then advance the clock. The clock is
  an int64 in the source; lemma \<open>sjf_paced_tick\<close> bounds it by the largest arrival time
  plus the sum of the bursts plus 1 on inputs of positive bursts and non-negative arrival
  times.
\<close>

definition sjf_switch :: "sjf_state \<Rightarrow> nat \<times> bool \<Rightarrow> sjf_state" where
  "sjf_switch s = (\<lambda>(new, swapped).
     (if swapped
      then s\<lparr>s_gantt := s_gantt s @
                [\<lparr>PID = int (s_current s + 1), Start = s_start s, Stop = s_time s\<rparr>],
             s_current := new, s_start := s_time s, s_time := s_time s + 1\<rparr>
      else s\<lparr>s_time := s_time s + 1\<rparr>))"

text \<open>The body of the simulation loop (lines 176-209, 257-292).\<close>

definition sjf_tick :: "(sjf_state \<Rightarrow> nat \<Rightarrow> bool) \<Rightarrow> Process list \<Rightarrow> sjf_state \<Rightarrow> sjf_state" where
  "sjf_tick cond processes s =
     (let (s1, swapped) = sjf_account s
      in sjf_switch s1 (sjf_select cond processes s1 swapped))"

text \<open>
  The loop \<open>for !noMoreProcesses(pd)\<close>. It need not end: \<open>None\<close> is the run that never
  leaves the loop.
\<close>

partial_function (option) sjf_loop ::
  "(sjf_state \<Rightarrow> nat \<Rightarrow> bool) \<Rightarrow> Process list \<Rightarrow> sjf_state \<Rightarrow> sjf_state option" where
  "sjf_loop cond processes s =
     (if noMoreProcesses (s_pd s) then Some s
      else sjf_loop cond processes (sjf_tick cond processes s))"

declare sjf_loop.simps [code]

text \<open>Lines 212-234 (295-316): the table rows and the three statistics.\<close>

definition sjf_row :: "Process list \<Rightarrow> ProcessData list \<Rightarrow> nat \<Rightarrow> row" where
  "sjf_row processes pd i =
     \<lparr>row_id = ProcessID (processes ! i), row_priority = Priority (processes ! i),
      row_burst = BurstDuration (processes ! i), row_arrival = ArrivalTime (processes ! i),
      row_wait = waitingTime (pd ! i),
      row_turnaround = waitingTime (pd ! i) + BurstDuration (processes ! i),
      row_exit = exit (pd ! i)\<rparr>"

definition sjf_report :: "Process list \<Rightarrow> sjf_state \<Rightarrow> result" where
  "sjf_report processes s =
     (let schedule = map (sjf_row processes (s_pd s)) [0..<length (s_pd s)];
          turnAroundTime = sum_list (map row_turnaround schedule);
          waitingTime = sum_list (map row_wait schedule);
          count = int (length processes)
      in \<lparr>out_gantt = s_gantt s,
          out_schedule = schedule,
          out_aveWait = fdiv waitingTime count,
          out_aveTurnaround = fdiv turnAroundTime count,
          out_aveThroughput = fdiv count (s_time s - 1),
          out_processes = processes\<rparr>)"

definition sjf_run :: "(sjf_state \<Rightarrow> nat \<Rightarrow> bool) \<Rightarrow> Process list \<Rightarrow> result option" where
  "sjf_run cond processes =
     (case sjf_loop cond processes (sjf_init processes) of
        None \<Rightarrow> None
      | Some s \<Rightarrow> Some (sjf_report processes s))"

definition SJFSchedule :: "Process list \<Rightarrow> result option" where
  "SJFSchedule processes = sjf_run sjf_cond processes"

definition SJFPrioritySchedule :: "Process list \<Rightarrow> result option" where
  "SJFPrioritySchedule processes = sjf_run sjfp_cond processes"

section \<open>RRSchedule (main.go, lines 319-410)\<close>

text \<open>
  \<open>sort.Slice\<close> of the Go library with the comparison of line 335. It leaves the slice
  sorted by arrival time; the order it gives to processes of equal arrival time is not
  fixed by its documentation. The model keeps them in their input order, as the insertion
  sort that the library runs on short slices does.
\<close>

definition sortSlice :: "Process list \<Rightarrow> Process list" where
  "sortSlice processes = sort_key ArrivalTime processes"

record rr_state =
  r_timeLeft :: "int list"
  r_currentTime :: int
  r_processData :: "ProcessData list"
  r_gantt :: "TimeSlice list"

definition val :: int where
  "val = 2"

definition rr_init :: "Process list \<Rightarrow> rr_state" where
  "rr_init processes =
     \<lparr>r_timeLeft = map BurstDuration processes,
      r_currentTime = 0,
      r_processData = replicate (length processes) \<lparr>waitingTime = 0, turnaroundTime = 0, exit = 0\<rparr>,
      r_gantt = []\<rparr>"

text \<open>
  The body of the inner loop (lines 347-366) at index \<open>i\<close>; \<open>done\<close> is threaded through.
  The index runs below \<open>n\<close>, the length of the three arrays, and \<open>i - 1\<close> is read only
  when \<open>i > 0\<close>.
\<close>

definition rr_visit :: "Process list \<Rightarrow> nat \<Rightarrow> rr_state \<times> bool \<Rightarrow> rr_state \<times> bool" where
  "rr_visit processes i = (\<lambda>(s, done).
     if r_timeLeft s ! i > 0 then
       (let s1 = (if r_timeLeft s ! i > val
                  then s\<lparr>r_currentTime := r_currentTime s + val,
                         r_timeLeft := (r_timeLeft s)[i := r_timeLeft s ! i - val]\<rparr>
                  else s\<lparr>r_currentTime := r_currentTime s + r_timeLeft s ! i,
                         r_processData := (r_processData s)[i := (r_processData s ! i)
                           \<lparr>turnaroundTime := r_currentTime s + r_timeLeft s ! i
                                               - ArrivalTime (processes ! i)\<rparr>],
                         r_timeLeft := (r_timeLeft s)[i := 0]\<rparr>)
        in (if i > 0 \<and> ProcessID (processes ! i) \<noteq> ProcessID (processes ! (i - 1))
            then s1\<lparr>r_gantt := r_gantt s1 @
                      [\<lparr>PID = ProcessID (processes ! (i - 1)),
                        Start = r_currentTime s1 - val, Stop = r_currentTime s1\<rparr>]\<rparr>
            else s1, False))
     else (s, done))"

definition rr_sweep :: "Process list \<Rightarrow> rr_state \<Rightarrow> rr_state \<times> bool" where
  "rr_sweep processes s =
     foldl (\<lambda>acc i. rr_visit processes i acc) (s, True) [0..<length processes]"

text \<open>The outer \<open>for\<close> of lines 343-372, left by the \<open>break\<close> of a sweep that found nothing to do.\<close>

partial_function (option) rr_loop :: "Process list \<Rightarrow> rr_state \<Rightarrow> rr_state option" where
  "rr_loop processes s =
     (case rr_sweep processes s of
        (s', done) \<Rightarrow> if done then Some s' else rr_loop processes s')"

declare rr_loop.simps [code]

text \<open>
  Lines 374-409. The waiting time is stored by the loop of lines 382-394 (and again, to
  the same value, by the loop of lines 396-401). The differences and the sum are int64
  operations in the source; lemma \<open>rr_loop_paced\<close> bounds the clock by the sum of the bursts
  and shows that every remaining time is 0 at the end, on inputs of positive bursts.
\<close>

definition rr_row :: "Process list \<Rightarrow> ProcessData list \<Rightarrow> nat \<Rightarrow> row" where
  "rr_row processes processData i =
     (let waitingTime = turnaroundTime (processData ! i) - BurstDuration (processes ! i)
      in \<lparr>row_id = ProcessID (processes ! i), row_priority = Priority (processes ! i),
          row_burst = BurstDuration (processes ! i), row_arrival = ArrivalTime (processes ! i),
          row_wait = waitingTime,
          row_turnaround = turnaroundTime (processData ! i),
          row_exit = ArrivalTime (processes ! i) + turnaroundTime (processData ! i)\<rparr>)"

definition rr_report :: "Process list \<Rightarrow> rr_state \<Rightarrow> result" where
  "rr_report processes s =
     (let n = length processes;
          gantt = (if n > 0
                   then r_gantt s @
                     [\<lparr>PID = ProcessID (processes ! (n - 1)),
                       Start = r_currentTime s - r_timeLeft s ! (n - 1),
                       Stop = r_currentTime s\<rparr>]
                   else r_gantt s);
          schedule = map (rr_row processes (r_processData s)) [0..<n];
          avgTurnaroundSum = sum_list (map row_turnaround schedule);
          avgWaitingSum = sum_list (map row_wait schedule)
      in \<lparr>out_gantt = gantt,
          out_schedule = schedule,
          out_aveWait = fdiv avgWaitingSum (int n),
          out_aveTurnaround = fdiv avgTurnaroundSum (int n),
          out_aveThroughput = fdiv (int n) (r_currentTime s),
          out_processes = processes\<rparr>)"

text \<open>
  The caller's slice is sorted first (lines 334-336); every later read of \<open>processes\<close> sees
  the sorted contents, and so does the caller after the call.
\<close>

definition RRSchedule :: "Process list \<Rightarrow> result option" where
  "RRSchedule processes0 =
     (let processes = sortSlice processes0
      in case rr_loop processes (rr_init processes) of
           None \<Rightarrow> None
         | Some s \<Rightarrow> Some (rr_report processes s))"

section \<open>Auxiliary definitions for the proofs\<close>

text \<open>
  The effect of the first scan on entry \<open>i\<close>, read off the state \<open>s\<close> in which the scan
  starts: the scan at \<open>i\<close> reads and writes entry \<open>i\<close> only, so the entries can be
  described one by one. \<open>acc_upto s k\<close> describes the state after the first \<open>k\<close>
  iterations.
\<close>

definition acc_temp :: "sjf_state \<Rightarrow> nat \<Rightarrow> Process" where
  "acc_temp s i =
     (if ArrivalTime (s_temp s ! i) < s_time s \<and> i = s_current s
      then (s_temp s ! i)\<lparr>BurstDuration := BurstDuration (s_temp s ! i) - 1\<rparr>
      else s_temp s ! i)"

definition acc_pd :: "sjf_state \<Rightarrow> nat \<Rightarrow> ProcessData" where
  "acc_pd s i =
     (if ArrivalTime (s_temp s ! i) < s_time s then
        if i \<noteq> s_current s \<and> exit (s_pd s ! i) = 0
        then (s_pd s ! i)\<lparr>waitingTime := waitingTime (s_pd s ! i) + 1\<rparr>
        else if i = s_current s \<and> BurstDuration (s_temp s ! i) - 1 = 0
        then (s_pd s ! i)\<lparr>exit := s_time s\<rparr>
        else s_pd s ! i
      else s_pd s ! i)"

definition acc_fin :: "sjf_state \<Rightarrow> nat \<Rightarrow> bool" where
  "acc_fin s i \<longleftrightarrow>
     ArrivalTime (s_temp s ! i) < s_time s \<and> i = s_current s \<and> BurstDuration (s_temp s ! i) - 1 = 0"

definition acc_upto :: "sjf_state \<Rightarrow> nat \<Rightarrow> sjf_state \<times> bool \<Rightarrow> bool" where
  "acc_upto s k = (\<lambda>(s', sw).
     s_time s' = s_time s \<and> s_current s' = s_current s \<and> s_start s' = s_start s
     \<and> s_gantt s' = s_gantt s
     \<and> length (s_temp s') = length (s_temp s) \<and> length (s_pd s') = length (s_pd s)
     \<and> (\<forall>i < length (s_pd s). s_temp s' ! i = (if i < k then acc_temp s i else s_temp s ! i))
     \<and> (\<forall>i < length (s_pd s). s_pd s' ! i = (if i < k then acc_pd s i else s_pd s ! i))
     \<and> (sw \<longleftrightarrow> (\<exists>i < k. acc_fin s i)))"

text \<open>
  The second scan: \<open>sel_elig\<close> is the test that makes iteration \<open>i\<close> assign \<open>new\<close>
  and \<open>swapped\<close>; \<open>sel_upto\<close> describes the two locals after the first \<open>k\<close> iterations.
\<close>

definition sel_elig :: "(sjf_state \<Rightarrow> nat \<Rightarrow> bool) \<Rightarrow> Process list \<Rightarrow> sjf_state \<Rightarrow> nat \<Rightarrow> bool" where
  "sel_elig cond processes s i \<longleftrightarrow>
     exit (s_pd s ! i) = 0 \<and> ArrivalTime (processes ! i) \<le> s_time s \<and> cond s i"

definition sel_upto ::
  "(sjf_state \<Rightarrow> nat \<Rightarrow> bool) \<Rightarrow> Process list \<Rightarrow> sjf_state \<Rightarrow> bool \<Rightarrow> nat \<Rightarrow> nat \<times> bool \<Rightarrow> bool" where
  "sel_upto cond processes s sw0 k = (\<lambda>(new, sw).
     (sw \<longleftrightarrow> sw0 \<or> (\<exists>i < k. sel_elig cond processes s i))
     \<and> (if \<exists>i < k. sel_elig cond processes s i
        then new < k \<and> sel_elig cond processes s new
        else new = 0))"

text \<open>
  Slices that follow one another without a gap: \<open>chained a g b\<close> says that the slices of
  \<open>g\<close> start at \<open>a\<close>, each one starts where the one before stops, none is of negative
  length, and the last one stops at \<open>b\<close>.
\<close>

fun chained :: "int \<Rightarrow> TimeSlice list \<Rightarrow> int \<Rightarrow> bool" where
  "chained a [] b \<longleftrightarrow> a = b"
| "chained a (x # xs) b \<longleftrightarrow> Start x = a \<and> Start x \<le> Stop x \<and> chained (Stop x) xs b"

text \<open>
  The two properties of a Gantt sequence: it is sorted by start time, and no two of its
  slices overlap, a slice being the half-open interval from \<open>Start\<close> to \<open>Stop\<close>.
\<close>

definition overlap :: "TimeSlice \<Rightarrow> TimeSlice \<Rightarrow> bool" where
  "overlap x y \<longleftrightarrow> max (Start x) (Start y) < min (Stop x) (Stop y)"

definition gantt_sorted :: "TimeSlice list \<Rightarrow> bool" where
  "gantt_sorted g = sorted_wrt (\<lambda>x y. Start x \<le> Start y) g"

definition gantt_disjoint :: "TimeSlice list \<Rightarrow> bool" where
  "gantt_disjoint g = sorted_wrt (\<lambda>x y. \<not> overlap x y) g"

text \<open>
  What every state of a shortest-job simulation satisfies, whatever the input: the two
  working arrays are as long as the input, no waiting time is negative, and the Gantt
  sequence is a chain from 0 to the start of the open slice, which is not after the clock.
\<close>

definition sjf_basic :: "Process list \<Rightarrow> sjf_state \<Rightarrow> bool" where
  "sjf_basic processes s \<longleftrightarrow>
     length (s_temp s) = length processes \<and> length (s_pd s) = length processes
     \<and> (\<forall>i < length processes. 0 \<le> waitingTime (s_pd s ! i))
     \<and> chained 0 (s_gantt s) (s_start s) \<and> s_start s \<le> s_time s"

text \<open>
  The invariant behind termination, for inputs whose arrival times are not negative: a
  process is unfinished (exit time 0) exactly as long as its remaining burst is positive.
\<close>

definition sjf_live :: "Process list \<Rightarrow> sjf_state \<Rightarrow> bool" where
  "sjf_live processes s \<longleftrightarrow>
     length (s_temp s) = length processes \<and> length (s_pd s) = length processes
     \<and> s_current s < length processes \<and> 0 \<le> s_time s
     \<and> (\<forall>i < length processes.
           ArrivalTime (s_temp s ! i) = ArrivalTime (processes ! i)
           \<and> 0 \<le> ArrivalTime (processes ! i)
           \<and> (exit (s_pd s ! i) = 0 \<longrightarrow> 0 < BurstDuration (s_temp s ! i))
           \<and> (exit (s_pd s ! i) \<noteq> 0 \<longrightarrow> BurstDuration (s_temp s ! i) \<le> 0))"

text \<open>
  The three quantities that decrease lexicographically along the loop: the work that is
  left, the time until the last arrival, and whether the current process is a finished one.
\<close>

definition max_arrival :: "Process list \<Rightarrow> int" where
  "max_arrival processes = foldr (\<lambda>p m. max (ArrivalTime p) m) processes 0"

definition sjf_work :: "sjf_state \<Rightarrow> nat" where
  "sjf_work s = (\<Sum>i < length (s_temp s). nat (BurstDuration (s_temp s ! i)))"

definition sjf_wait_arrival :: "Process list \<Rightarrow> sjf_state \<Rightarrow> nat" where
  "sjf_wait_arrival processes s = nat (max_arrival processes + 1 - s_time s)"

definition sjf_idle :: "sjf_state \<Rightarrow> nat" where
  "sjf_idle s = (if BurstDuration (s_temp s ! s_current s) \<le> 0 then 1 else 0)"

text \<open>The work that a round-robin state has left: the sum of the positive \<open>timeLeft\<close> entries.\<close>

definition rr_work :: "rr_state \<Rightarrow> nat" where
  "rr_work s = (\<Sum>i < length (r_timeLeft s). nat (r_timeLeft s ! i))"

text \<open>
  What a sweep has done after its first \<open>k\<close> iterations: either nothing (\<open>done\<close> is still
  true, and the entries visited were not positive), or it has reduced the work.
\<close>

definition sweep_upto :: "rr_state \<Rightarrow> nat \<Rightarrow> rr_state \<times> bool \<Rightarrow> bool" where
  "sweep_upto s k = (\<lambda>(s', done).
     length (r_timeLeft s') = length (r_timeLeft s)
     \<and> (if done then s' = s \<and> (\<forall>i < k. r_timeLeft s ! i \<le> 0)
        else rr_work s' < rr_work s))"

text \<open>
  What every state of the round-robin loop satisfies, whatever the input: the slices are
  sorted by start time and start at least one quantum before the clock; a process that still
  has time left has not received more than the clock shows, and the turnaround time stored
  for a finished process of positive burst is at least its burst minus its arrival time.
\<close>

definition rr_fine :: "Process list \<Rightarrow> rr_state \<Rightarrow> bool" where
  "rr_fine processes s \<longleftrightarrow>
     length (r_timeLeft s) = length processes \<and> length (r_processData s) = length processes
     \<and> gantt_sorted (r_gantt s)
     \<and> (\<forall>x \<in> set (r_gantt s). Start x \<le> r_currentTime s - val)
     \<and> (\<forall>i < length processes.
           (0 < r_timeLeft s ! i \<longrightarrow> BurstDuration (processes ! i) \<le> r_currentTime s + r_timeLeft s ! i)
           \<and> (r_timeLeft s ! i \<le> 0 \<longrightarrow> 0 < BurstDuration (processes ! i) \<longrightarrow>
                BurstDuration (processes ! i)
                  \<le> turnaroundTime (r_processData s ! i) + ArrivalTime (processes ! i)))"

text \<open>
  A state of a simulation of a single process from which the loop cannot be left: the
  process is unfinished and either its remaining burst is not positive, or the clock is 0,
  the remaining burst is 1 and the process arrived before time 0 (its exit time is then
  set to the clock value 0, which reads as unfinished).
\<close>

definition sjf_stuck :: "sjf_state \<Rightarrow> bool" where
  "sjf_stuck s \<longleftrightarrow>
     length (s_temp s) = 1 \<and> length (s_pd s) = 1 \<and> s_current s = 0
     \<and> exit (s_pd s ! 0) = 0
     \<and> (BurstDuration (s_temp s ! 0) \<le> 0
        \<or> (s_time s = 0 \<and> BurstDuration (s_temp s ! 0) = 1 \<and> ArrivalTime (s_temp s ! 0) < 0))"

section \<open>Ties between remaining bursts\<close>

text \<open>
  The tie of the specification's words: two different processes that have arrived and are
  unfinished have equal remaining bursts. The state is the one that the second scan reads.
\<close>

definition pair_tie :: "Process list \<Rightarrow> sjf_state \<Rightarrow> bool" where
  "pair_tie processes s =
     list_ex (\<lambda>i. list_ex (\<lambda>j. i \<noteq> j
         \<and> exit (s_pd s ! i) = 0 \<and> ArrivalTime (processes ! i) \<le> s_time s
         \<and> exit (s_pd s ! j) = 0 \<and> ArrivalTime (processes ! j) \<le> s_time s
         \<and> BurstDuration (s_temp s ! i) = BurstDuration (s_temp s ! j))
       [0..<length processes]) [0..<length processes]"

text \<open>
  The tie that the second scan can see: a process other than the current one has arrived,
  is unfinished and has the remaining burst of the process at the current index, which
  itself need not have arrived.
\<close>

definition current_tie :: "Process list \<Rightarrow> sjf_state \<Rightarrow> bool" where
  "current_tie processes s =
     list_ex (\<lambda>i. i \<noteq> s_current s
         \<and> exit (s_pd s ! i) = 0 \<and> ArrivalTime (processes ! i) \<le> s_time s
         \<and> BurstDuration (s_temp s ! i) = BurstDuration (s_temp s ! s_current s))
       [0..<length processes]"

text \<open>
  \<open>sjf_avoids bad cond processes s\<close> follows the simulation from \<open>s\<close> and tells whether
  the state read by the second scan is free of \<open>bad\<close> at every tick, up to the end of the
  loop.
\<close>

partial_function (option) sjf_avoids ::
  "(Process list \<Rightarrow> sjf_state \<Rightarrow> bool) \<Rightarrow> (sjf_state \<Rightarrow> nat \<Rightarrow> bool) \<Rightarrow> Process list
     \<Rightarrow> sjf_state \<Rightarrow> bool option" where
  "sjf_avoids bad cond processes s =
     (if noMoreProcesses (s_pd s) then Some True
      else if bad processes (fst (sjf_account s)) then Some False
      else sjf_avoids bad cond processes (sjf_tick cond processes s))"

declare sjf_avoids.simps [code]

section \<open>Inputs on which no int64 operation overflows\<close>

text \<open>
  The model computes with unbounded integers. It computes what the code computes as long
  as no value of the run leaves the range of int64, which \<open>int64\<close> tests.
\<close>

definition int64 :: "int \<Rightarrow> bool" where
  "int64 x \<longleftrightarrow> - (2 ^ 63) \<le> x \<and> x < 2 ^ 63"

definition total_burst :: "Process list \<Rightarrow> int" where
  "total_burst processes = sum_list (map BurstDuration processes)"

text \<open>
  The inputs of the theorems that hold for every run: every burst is positive, no arrival
  time is negative, and the largest arrival time plus the sum of all bursts plus 1 is below
  \<open>2^63\<close>. On such an input the clock of a shortest-job simulation never exceeds that
  sum (lemma \<open>sjf_paced_tick\<close>), the clock of round-robin ends at the sum of the bursts
  (lemma \<open>rr_loop_paced\<close>) and so does the service time of FCFS (lemma
  \<open>fcfs_fold_serviceTime\<close>); the waiting times, exit times and slice times that the
  theorems are about are shown to lie within the int64 range.
\<close>

definition bounded_input :: "Process list \<Rightarrow> bool" where
  "bounded_input processes \<longleftrightarrow>
     list_all (\<lambda>p. 0 < BurstDuration p \<and> 0 \<le> ArrivalTime p) processes
     \<and> max_arrival processes + total_burst processes + 1 < 2 ^ 63"

text \<open>
  The pace of a shortest-job simulation: while the current process is a finished one, no
  unfinished process has arrived before the clock; the clock is at most the largest arrival
  time plus 1 plus the work that has been done; and no waiting time or exit time is ahead of
  the clock.
\<close>

definition sjf_paced :: "Process list \<Rightarrow> sjf_state \<Rightarrow> bool" where
  "sjf_paced processes s \<longleftrightarrow>
     (BurstDuration (s_temp s ! s_current s) \<le> 0 \<longrightarrow>
        (\<forall>i < length processes. exit (s_pd s ! i) = 0 \<longrightarrow> s_time s \<le> ArrivalTime (processes ! i)))
     \<and> int (sjf_work s) \<le> total_burst processes
     \<and> s_time s + int (sjf_work s) \<le> max_arrival processes + 1 + total_burst processes
     \<and> (\<forall>i < length processes.
           waitingTime (s_pd s ! i) \<le> s_time s
           \<and> 0 \<le> exit (s_pd s ! i) \<and> exit (s_pd s ! i) \<le> s_time s)"

text \<open>
  The pace of the round-robin loop on positive bursts: no remaining time is negative, the
  clock plus the remaining times is the sum of the bursts, every slice lies between one
  quantum before time 0 and the clock, and the completion time of a finished process
  (turnaround time plus arrival time) is not after the clock.
\<close>

definition rr_paced :: "Process list \<Rightarrow> rr_state \<Rightarrow> bool" where
  "rr_paced processes s \<longleftrightarrow>
     length (r_timeLeft s) = length processes \<and> length (r_processData s) = length processes
     \<and> (\<forall>j < length processes. 0 \<le> r_timeLeft s ! j)
     \<and> 0 \<le> r_currentTime s
     \<and> r_currentTime s + (\<Sum>j < length processes. r_timeLeft s ! j) = total_burst processes
     \<and> (\<forall>x \<in> set (r_gantt s). - val \<le> Start x \<and> Start x \<le> Stop x \<and> Stop x \<le> r_currentTime s)
     \<and> (\<forall>j < length processes. r_timeLeft s ! j = 0 \<longrightarrow>
           turnaroundTime (r_processData s ! j) + ArrivalTime (processes ! j) \<le> r_currentTime s)"


section \<open>Lemmas on FCFSSchedule\<close>

lemma fcfs_step_serviceTime: "f_serviceTime (fcfs_step s p) = f_serviceTime s + BurstDuration p"
  by (simp add: fcfs_step_def Let_def)

lemma fcfs_step_waitingTime: "f_waitingTime (fcfs_step s p) = fcfs_wait s p"
  by (simp add: fcfs_step_def Let_def fcfs_wait_def)

lemma fcfs_step_schedule:
  "f_schedule (fcfs_step s p) = f_schedule s @
     [\<lparr>row_id = ProcessID p, row_priority = Priority p, row_burst = BurstDuration p,
       row_arrival = ArrivalTime p, row_wait = fcfs_wait s p,
       row_turnaround = BurstDuration p + fcfs_wait s p,
       row_exit = BurstDuration p + ArrivalTime p + fcfs_wait s p\<rparr>]"
  by (simp add: fcfs_step_def Let_def fcfs_wait_def)

lemma fcfs_step_gantt:
  "f_gantt (fcfs_step s p) = f_gantt s @
     [\<lparr>PID = ProcessID p, Start = fcfs_wait s p + ArrivalTime p,
       Stop = f_serviceTime s + BurstDuration p\<rparr>]"
  by (simp add: fcfs_step_def Let_def fcfs_wait_def)

lemma fcfs_fold_serviceTime:
  "f_serviceTime (foldl fcfs_step s ps) = f_serviceTime s + sum_list (map BurstDuration ps)"
  by (induction ps rule: rev_induct) (simp_all add: fcfs_step_serviceTime)

lemma fcfs_fold_length:
  "length (f_schedule (foldl fcfs_step s ps)) = length (f_schedule s) + length ps"
  by (induction ps rule: rev_induct) (simp_all add: fcfs_step_schedule)

lemma fcfs_fold_gantt_length:
  "length (f_gantt (foldl fcfs_step s ps)) = length (f_gantt s) + length ps"
  by (induction ps rule: rev_induct) (simp_all add: fcfs_step_gantt)

lemma fcfs_fold_waitingTime:
  "f_waitingTime (foldl fcfs_step fcfs_init ps) =
     (if ps = [] then 0 else row_wait (last (f_schedule (foldl fcfs_step fcfs_init ps))))"
  by (induction ps rule: rev_induct)
     (simp_all add: fcfs_step_schedule fcfs_step_waitingTime fcfs_init_def)

lemma fcfs_schedule_take:
  "f_schedule (foldl fcfs_step fcfs_init (take i ps)) = take i (f_schedule (foldl fcfs_step fcfs_init ps))"
proof (induction ps arbitrary: i rule: rev_induct)
  case Nil
  then show ?case by (simp add: fcfs_init_def)
next
  case (snoc p ps)
  have len: "length (f_schedule (foldl fcfs_step fcfs_init ps)) = length ps"
    by (simp add: fcfs_fold_length fcfs_init_def)
  show ?case
  proof (cases "i \<le> length ps")
    case True
    then show ?thesis using snoc[of i] len by (simp add: fcfs_step_schedule)
  next
    case False
    then show ?thesis using len by (simp add: fcfs_step_schedule)
  qed
qed

lemma fcfs_row_nth:
  assumes "i < length ps"
  shows "f_schedule (foldl fcfs_step fcfs_init ps) ! i =
         last (f_schedule (fcfs_step (foldl fcfs_step fcfs_init (take i ps)) (ps ! i)))"
proof -
  have "f_schedule (foldl fcfs_step fcfs_init (take (Suc i) ps)) = take (Suc i) (f_schedule (foldl fcfs_step fcfs_init ps))"
    by (rule fcfs_schedule_take)
  moreover have "take (Suc i) ps = take i ps @ [ps ! i]"
    using assms by (simp add: take_Suc_conv_app_nth)
  moreover have "length (f_schedule (foldl fcfs_step fcfs_init ps)) = length ps"
    by (simp add: fcfs_fold_length fcfs_init_def)
  ultimately show ?thesis using assms
    by (simp add: fcfs_step_schedule take_Suc_conv_app_nth)
qed

section \<open>Lemmas on the first scan of the shortest-job simulations\<close>

lemma foldl_upt_invariant:
  assumes "P 0 a" and "\<And>i a. i < n \<Longrightarrow> P i a \<Longrightarrow> P (Suc i) (f a i)"
  shows "P n (foldl f a [0..<n])"
proof -
  have "k \<le> n \<Longrightarrow> P k (foldl f a [0..<k])" for k
  proof (induction k)
    case 0
    then show ?case using assms(1) by simp
  next
    case (Suc k)
    then show ?case using assms(2)[of k "foldl f a [0..<k]"] by simp
  qed
  then show ?thesis by simp
qed

lemma acc_upto_step:
  assumes len: "length (s_temp s) = length (s_pd s)" and k: "k < length (s_pd s)"
    and inv: "acc_upto s k a"
  shows "acc_upto s (Suc k) (sjf_visit k a)"
proof -
  obtain s' sw where a: "a = (s', sw)" by (cases a)
  from inv a have
    t: "s_time s' = s_time s" and c: "s_current s' = s_current s" and
    st: "s_start s' = s_start s" and g: "s_gantt s' = s_gantt s" and
    lt: "length (s_temp s') = length (s_temp s)" and lp: "length (s_pd s') = length (s_pd s)" and
    tm: "\<And>i. i < length (s_pd s) \<Longrightarrow> s_temp s' ! i = (if i < k then acc_temp s i else s_temp s ! i)" and
    pd: "\<And>i. i < length (s_pd s) \<Longrightarrow> s_pd s' ! i = (if i < k then acc_pd s i else s_pd s ! i)" and
    sw: "sw \<longleftrightarrow> (\<exists>i < k. acc_fin s i)"
    by (simp_all add: acc_upto_def)
  have tk: "s_temp s' ! k = s_temp s ! k" using tm[OF k] by simp
  have pk: "s_pd s' ! k = s_pd s ! k" using pd[OF k] by simp
  have ex: "(\<exists>i < Suc k. acc_fin s i) \<longleftrightarrow> (\<exists>i < k. acc_fin s i) \<or> acc_fin s k"
    by (auto simp: less_Suc_eq)
  have kt: "k < length (s_temp s')" using k lt len by simp
  have kp: "k < length (s_pd s')" using k lp by simp
  show ?thesis
    unfolding a acc_upto_def sjf_visit_def ex
    using t c st g lt lp sw tk pk kt kp len k
    by (auto simp: Let_def nth_list_update tm pd acc_temp_def acc_pd_def acc_fin_def less_Suc_eq)
qed

lemma sjf_account_upto:
  assumes len: "length (s_temp s) = length (s_pd s)"
  shows "acc_upto s (length (s_pd s)) (sjf_account s)"
  unfolding sjf_account_def
  by (rule foldl_upt_invariant[where P = "acc_upto s"])
     (simp_all add: acc_upto_def acc_upto_step[OF len, unfolded acc_upto_def])


section \<open>Lemmas on the second scan and on the simulation loop\<close>

lemma sjf_pick_elig:
  "sjf_pick cond processes s k a =
     (if sel_elig cond processes s k then (k, True) else a)"
  by (cases a) (simp add: sjf_pick_def sel_elig_def)

lemma sel_upto_step:
  assumes "sel_upto cond processes s sw0 k a"
  shows "sel_upto cond processes s sw0 (Suc k) (sjf_pick cond processes s k a)"
proof -
  obtain new sw where a: "a = (new, sw)" by (cases a)
  show ?thesis
  proof (cases "sel_elig cond processes s k")
    case True
    then show ?thesis by (auto simp: sjf_pick_elig sel_upto_def)
  next
    case False
    then have eq: "(\<exists>i < Suc k. sel_elig cond processes s i) \<longleftrightarrow> (\<exists>i < k. sel_elig cond processes s i)"
      by (auto simp: less_Suc_eq)
    show ?thesis
    proof (cases "\<exists>i < k. sel_elig cond processes s i")
      case True
      then show ?thesis using assms False a unfolding sel_upto_def sjf_pick_elig eq
        by simp
    next
      case no: False
      then show ?thesis using assms False a unfolding sel_upto_def sjf_pick_elig eq
        by auto
    qed
  qed
qed

lemma sjf_select_upto:
  "sel_upto cond processes s sw0 (length processes) (sjf_select cond processes s sw0)"
  unfolding sjf_select_def
  by (rule foldl_upt_invariant[where P = "sel_upto cond processes s sw0"])
     (simp_all add: sel_upto_def sel_upto_step[unfolded sel_upto_def])

lemma noMoreProcesses_iff: "noMoreProcesses pd \<longleftrightarrow> (\<forall>d \<in> set pd. exit d \<noteq> 0)"
  by (induction pd) auto

lemma sjf_loop_rule:
  assumes run: "sjf_loop cond processes s = Some s'"
    and init: "I s"
    and step: "\<And>s. I s \<Longrightarrow> \<not> noMoreProcesses (s_pd s) \<Longrightarrow> I (sjf_tick cond processes s)"
  shows "I s' \<and> noMoreProcesses (s_pd s')"
proof -
  have "c = cond \<longrightarrow> p = processes \<longrightarrow> I s0 \<longrightarrow> I t \<and> noMoreProcesses (s_pd t)"
    if "sjf_loop c p s0 = Some t" for c p s0 t
  proof (rule sjf_loop.raw_induct[where P = "\<lambda>c p s t. c = cond \<longrightarrow> p = processes \<longrightarrow> I s
              \<longrightarrow> I t \<and> noMoreProcesses (s_pd t)", OF _ that], intro impI)
    fix f c' p' s1 t1
    assume IH: "\<And>c p s t. f c p s = Some t \<Longrightarrow>
                  c = cond \<longrightarrow> p = processes \<longrightarrow> I s \<longrightarrow> I t \<and> noMoreProcesses (s_pd t)"
      and body: "(if noMoreProcesses (s_pd s1) then Some s1
                  else f c' p' (sjf_tick c' p' s1)) = Some t1"
      and c: "c' = cond" and p: "p' = processes" and I: "I s1"
    show "I t1 \<and> noMoreProcesses (s_pd t1)"
    proof (cases "noMoreProcesses (s_pd s1)")
      case True
      then show ?thesis using body I by simp
    next
      case False
      then have "f cond processes (sjf_tick cond processes s1) = Some t1"
        using body c p by simp
      from IH[OF this] step[OF I False] show ?thesis by simp
    qed
  qed
  then show ?thesis using run init by blast
qed

lemma sjf_loop_total:
  assumes wf: "wf R"
    and step: "\<And>s. I s \<Longrightarrow> \<not> noMoreProcesses (s_pd s) \<Longrightarrow>
                 I (sjf_tick cond processes s) \<and> (sjf_tick cond processes s, s) \<in> R"
    and init: "I s"
  shows "\<exists>s'. sjf_loop cond processes s = Some s'"
  using wf init
proof (induction s rule: wf_induct_rule)
  case (less s)
  show ?case
  proof (cases "noMoreProcesses (s_pd s)")
    case True
    then show ?thesis by (simp add: sjf_loop.simps)
  next
    case False
    from step[OF less.prems False] less.IH
    have "\<exists>s'. sjf_loop cond processes (sjf_tick cond processes s) = Some s'" by blast
    then show ?thesis using False by (subst sjf_loop.simps) simp
  qed
qed

section \<open>Lemmas on one tick of the shortest-job simulations\<close>

lemma sjf_tick_eq:
  "sjf_tick cond processes s =
     sjf_switch (fst (sjf_account s))
       (sjf_select cond processes (fst (sjf_account s)) (snd (sjf_account s)))"
  by (simp add: sjf_tick_def split_beta)

lemma acc_time: "length (s_temp s) = length (s_pd s) \<Longrightarrow> s_time (fst (sjf_account s)) = s_time s"
  using sjf_account_upto[of s] by (simp add: acc_upto_def split_beta)

lemma acc_current: "length (s_temp s) = length (s_pd s) \<Longrightarrow> s_current (fst (sjf_account s)) = s_current s"
  using sjf_account_upto[of s] by (simp add: acc_upto_def split_beta)

lemma acc_start: "length (s_temp s) = length (s_pd s) \<Longrightarrow> s_start (fst (sjf_account s)) = s_start s"
  using sjf_account_upto[of s] by (simp add: acc_upto_def split_beta)

lemma acc_gantt: "length (s_temp s) = length (s_pd s) \<Longrightarrow> s_gantt (fst (sjf_account s)) = s_gantt s"
  using sjf_account_upto[of s] by (simp add: acc_upto_def split_beta)

lemma acc_length_temp:
  "length (s_temp s) = length (s_pd s) \<Longrightarrow> length (s_temp (fst (sjf_account s))) = length (s_temp s)"
  using sjf_account_upto[of s] by (simp add: acc_upto_def split_beta)

lemma acc_length_pd:
  "length (s_temp s) = length (s_pd s) \<Longrightarrow> length (s_pd (fst (sjf_account s))) = length (s_pd s)"
  using sjf_account_upto[of s] by (simp add: acc_upto_def split_beta)

lemma acc_temp_nth:
  "length (s_temp s) = length (s_pd s) \<Longrightarrow> i < length (s_pd s) \<Longrightarrow>
   s_temp (fst (sjf_account s)) ! i = acc_temp s i"
  using sjf_account_upto[of s] by (simp add: acc_upto_def split_beta)

lemma acc_pd_nth:
  "length (s_temp s) = length (s_pd s) \<Longrightarrow> i < length (s_pd s) \<Longrightarrow>
   s_pd (fst (sjf_account s)) ! i = acc_pd s i"
  using sjf_account_upto[of s] by (simp add: acc_upto_def split_beta)

lemma acc_swapped:
  "length (s_temp s) = length (s_pd s) \<Longrightarrow>
   snd (sjf_account s) \<longleftrightarrow> (\<exists>i < length (s_pd s). acc_fin s i)"
  using sjf_account_upto[of s] by (simp add: acc_upto_def split_beta)

lemma sel_swapped:
  "snd (sjf_select cond processes s sw0) \<longleftrightarrow>
     sw0 \<or> (\<exists>i < length processes. sel_elig cond processes s i)"
  using sjf_select_upto[of cond processes s sw0] by (simp add: sel_upto_def split_beta)

lemma sel_new:
  "\<exists>i < length processes. sel_elig cond processes s i \<Longrightarrow>
   fst (sjf_select cond processes s sw0) < length processes
   \<and> sel_elig cond processes s (fst (sjf_select cond processes s sw0))"
  using sjf_select_upto[of cond processes s sw0] by (simp add: sel_upto_def split_beta)

lemma sel_new_default:
  "\<not> (\<exists>i < length processes. sel_elig cond processes s i) \<Longrightarrow>
   fst (sjf_select cond processes s sw0) = 0"
  using sjf_select_upto[of cond processes s sw0] by (simp add: sel_upto_def split_beta)

lemma switch_temp: "s_temp (sjf_switch s a) = s_temp s"
  by (cases a) (simp add: sjf_switch_def)

lemma switch_pd: "s_pd (sjf_switch s a) = s_pd s"
  by (cases a) (simp add: sjf_switch_def)

lemma switch_time: "s_time (sjf_switch s a) = s_time s + 1"
  by (cases a) (simp add: sjf_switch_def)

lemma switch_current: "s_current (sjf_switch s a) = (if snd a then fst a else s_current s)"
  by (cases a) (simp add: sjf_switch_def)

lemma switch_start: "s_start (sjf_switch s a) = (if snd a then s_time s else s_start s)"
  by (cases a) (simp add: sjf_switch_def)

lemma switch_gantt:
  "s_gantt (sjf_switch s a) =
     (if snd a
      then s_gantt s @ [\<lparr>PID = int (s_current s + 1), Start = s_start s, Stop = s_time s\<rparr>]
      else s_gantt s)"
  by (cases a) (simp add: sjf_switch_def)

lemma tick_temp_nth:
  "length (s_temp s) = length (s_pd s) \<Longrightarrow> i < length (s_pd s) \<Longrightarrow>
   s_temp (sjf_tick cond processes s) ! i = acc_temp s i"
  by (simp add: sjf_tick_eq switch_temp acc_temp_nth)

lemma tick_pd_nth:
  "length (s_temp s) = length (s_pd s) \<Longrightarrow> i < length (s_pd s) \<Longrightarrow>
   s_pd (sjf_tick cond processes s) ! i = acc_pd s i"
  by (simp add: sjf_tick_eq switch_pd acc_pd_nth)

lemma tick_length_temp:
  "length (s_temp s) = length (s_pd s) \<Longrightarrow> length (s_temp (sjf_tick cond processes s)) = length (s_temp s)"
  by (simp add: sjf_tick_eq switch_temp acc_length_temp)

lemma tick_length_pd:
  "length (s_temp s) = length (s_pd s) \<Longrightarrow> length (s_pd (sjf_tick cond processes s)) = length (s_pd s)"
  by (simp add: sjf_tick_eq switch_pd acc_length_pd)

lemma tick_time:
  "length (s_temp s) = length (s_pd s) \<Longrightarrow> s_time (sjf_tick cond processes s) = s_time s + 1"
  by (simp add: sjf_tick_eq switch_time acc_time)

section \<open>Lemmas on chains of slices\<close>

lemma chained_snoc:
  "chained a g b \<Longrightarrow> b \<le> c \<Longrightarrow> chained a (g @ [\<lparr>PID = p, Start = b, Stop = c\<rparr>]) c"
  by (induction g arbitrary: a) auto

lemma chained_bounds:
  "chained a g b \<Longrightarrow> a \<le> b \<and> (\<forall>x \<in> set g. a \<le> Start x \<and> Start x \<le> Stop x \<and> Stop x \<le> b)"
proof (induction g arbitrary: a)
  case Nil
  then show ?case by simp
next
  case (Cons x g)
  from Cons.prems have c: "chained (Stop x) g b" and sx: "Start x = a" "Start x \<le> Stop x"
    by simp_all
  from Cons.IH[OF c] sx show ?case by auto
qed

lemma chained_consecutive:
  "chained a g b \<Longrightarrow> sorted_wrt (\<lambda>x y. Stop x \<le> Start y) g"
proof (induction g arbitrary: a)
  case Nil
  then show ?case by simp
next
  case (Cons x g)
  from Cons.prems have c: "chained (Stop x) g b" by simp
  from chained_bounds[OF c] Cons.IH[OF c] show ?case by auto
qed

lemma chained_gantt_sorted: "chained a g b \<Longrightarrow> gantt_sorted g"
proof -
  assume c: "chained a g b"
  have "sorted_wrt (\<lambda>x y. Stop x \<le> Start y \<and> Start x \<le> Stop x) g"
    using chained_consecutive[OF c] chained_bounds[OF c]
    by (induction g) auto
  then show ?thesis unfolding gantt_sorted_def
    by (rule sorted_wrt_mono_rel[rotated]) auto
qed

lemma chained_gantt_disjoint: "chained a g b \<Longrightarrow> gantt_disjoint g"
proof -
  assume c: "chained a g b"
  show ?thesis unfolding gantt_disjoint_def
    by (rule sorted_wrt_mono_rel[OF _ chained_consecutive[OF c]]) (auto simp: overlap_def)
qed

section \<open>The invariant of the shortest-job simulations that needs no hypothesis\<close>

lemma acc_pd_waiting: "0 \<le> waitingTime (s_pd s ! i) \<Longrightarrow> 0 \<le> waitingTime (acc_pd s i)"
  by (auto simp: acc_pd_def)

lemma sjf_basic_init: "sjf_basic processes (sjf_init processes)"
  by (simp add: sjf_basic_def sjf_init_def)

lemma sjf_basic_tick:
  assumes "sjf_basic processes s"
  shows "sjf_basic processes (sjf_tick cond processes s)"
proof -
  from assms have len: "length (s_temp s) = length (s_pd s)"
    and lp: "length (s_pd s) = length processes"
    and w: "\<And>i. i < length processes \<Longrightarrow> 0 \<le> waitingTime (s_pd s ! i)"
    and ch: "chained 0 (s_gantt s) (s_start s)" and st: "s_start s \<le> s_time s"
    by (simp_all add: sjf_basic_def)
  have "chained 0 (s_gantt (sjf_tick cond processes s)) (s_start (sjf_tick cond processes s))"
    using ch st len
    by (simp add: sjf_tick_eq switch_gantt switch_start acc_gantt acc_start acc_time acc_current
          chained_snoc)
  moreover have "s_start (sjf_tick cond processes s) \<le> s_time (sjf_tick cond processes s)"
    using st len by (simp add: sjf_tick_eq switch_start switch_time acc_start acc_time)
  moreover have "\<forall>i < length processes. 0 \<le> waitingTime (s_pd (sjf_tick cond processes s) ! i)"
    using w len lp by (simp add: tick_pd_nth acc_pd_waiting)
  ultimately show ?thesis
    using len lp by (simp add: sjf_basic_def tick_length_temp tick_length_pd)
qed

lemma sjf_loop_basic:
  assumes "sjf_loop cond processes (sjf_init processes) = Some s"
  shows "sjf_basic processes s \<and> noMoreProcesses (s_pd s)"
  by (rule sjf_loop_rule[OF assms, where I = "sjf_basic processes"])
     (simp_all add: sjf_basic_init sjf_basic_tick)

section \<open>Termination of the shortest-job simulations\<close>

lemma max_arrival_ge: "p \<in> set processes \<Longrightarrow> ArrivalTime p \<le> max_arrival processes"
  unfolding max_arrival_def by (induction processes) auto

lemma sjf_live_init:
  assumes "processes \<noteq> []" and "\<forall>p \<in> set processes. 0 \<le> ArrivalTime p \<and> 0 < BurstDuration p"
  shows "sjf_live processes (sjf_init processes)"
  using assms by (simp add: sjf_live_def sjf_init_def)

lemma acc_temp_arrival: "ArrivalTime (acc_temp s i) = ArrivalTime (s_temp s ! i)"
  by (simp add: acc_temp_def)

lemma acc_live_entry:
  assumes "0 \<le> ArrivalTime (s_temp s ! i)"
    and "exit (s_pd s ! i) = 0 \<longrightarrow> 0 < BurstDuration (s_temp s ! i)"
    and "exit (s_pd s ! i) \<noteq> 0 \<longrightarrow> BurstDuration (s_temp s ! i) \<le> 0"
  shows "(exit (acc_pd s i) = 0 \<longrightarrow> 0 < BurstDuration (acc_temp s i))
       \<and> (exit (acc_pd s i) \<noteq> 0 \<longrightarrow> BurstDuration (acc_temp s i) \<le> 0)"
  using assms by (auto simp: acc_pd_def acc_temp_def)

lemma tick_current_less:
  assumes len: "length (s_temp s) = length (s_pd s)" and c: "s_current s < length processes"
  shows "s_current (sjf_tick cond processes s) < length processes"
proof (cases "\<exists>i < length processes. sel_elig cond processes (fst (sjf_account s)) i")
  case True
  from sel_new[OF True] show ?thesis using c len
    by (simp add: sjf_tick_eq switch_current acc_current)
next
  case False
  from sel_new_default[OF False] show ?thesis using c len
    by (auto simp: sjf_tick_eq switch_current acc_current)
qed

lemma sjf_live_tick:
  assumes "sjf_live processes s"
  shows "sjf_live processes (sjf_tick cond processes s)"
proof -
  from assms have len: "length (s_temp s) = length (s_pd s)"
    and lp: "length (s_pd s) = length processes"
    and c: "s_current s < length processes" and t: "0 \<le> s_time s"
    and e: "\<And>i. i < length processes \<Longrightarrow>
           ArrivalTime (s_temp s ! i) = ArrivalTime (processes ! i)
           \<and> 0 \<le> ArrivalTime (processes ! i)
           \<and> (exit (s_pd s ! i) = 0 \<longrightarrow> 0 < BurstDuration (s_temp s ! i))
           \<and> (exit (s_pd s ! i) \<noteq> 0 \<longrightarrow> BurstDuration (s_temp s ! i) \<le> 0)"
    by (simp_all add: sjf_live_def)
  have "\<forall>i < length processes.
           ArrivalTime (s_temp (sjf_tick cond processes s) ! i) = ArrivalTime (processes ! i)
           \<and> 0 \<le> ArrivalTime (processes ! i)
           \<and> (exit (s_pd (sjf_tick cond processes s) ! i) = 0
                \<longrightarrow> 0 < BurstDuration (s_temp (sjf_tick cond processes s) ! i))
           \<and> (exit (s_pd (sjf_tick cond processes s) ! i) \<noteq> 0
                \<longrightarrow> BurstDuration (s_temp (sjf_tick cond processes s) ! i) \<le> 0)"
  proof (intro allI impI)
    fix i assume i: "i < length processes"
    from e[OF i] have "0 \<le> ArrivalTime (s_temp s ! i)" by simp
    from acc_live_entry[OF this] e[OF i] show
      "ArrivalTime (s_temp (sjf_tick cond processes s) ! i) = ArrivalTime (processes ! i)
           \<and> 0 \<le> ArrivalTime (processes ! i)
           \<and> (exit (s_pd (sjf_tick cond processes s) ! i) = 0
                \<longrightarrow> 0 < BurstDuration (s_temp (sjf_tick cond processes s) ! i))
           \<and> (exit (s_pd (sjf_tick cond processes s) ! i) \<noteq> 0
                \<longrightarrow> BurstDuration (s_temp (sjf_tick cond processes s) ! i) \<le> 0)"
      using i len lp by (simp add: tick_temp_nth tick_pd_nth acc_temp_arrival)
  qed
  then show ?thesis
    using len lp t tick_current_less[OF len c, of cond]
    by (simp add: sjf_live_def tick_length_temp tick_length_pd tick_time)
qed

lemma nat_pred_le: "nat (x - 1) \<le> nat x"
  by arith

lemma work_tick_le:
  assumes len: "length (s_temp s) = length (s_pd s)"
  shows "sjf_work (sjf_tick cond processes s) \<le> sjf_work s"
  unfolding sjf_work_def tick_length_temp[OF len]
  by (rule sum_mono) (use len in \<open>simp add: tick_temp_nth acc_temp_def nat_pred_le\<close>)

lemma work_tick_less:
  assumes len: "length (s_temp s) = length (s_pd s)" and c: "s_current s < length (s_pd s)"
    and b: "0 < BurstDuration (s_temp s ! s_current s)"
    and a: "ArrivalTime (s_temp s ! s_current s) < s_time s"
  shows "sjf_work (sjf_tick cond processes s) < sjf_work s"
  unfolding sjf_work_def tick_length_temp[OF len]
proof (rule sum_strict_mono_ex1)
  show "finite {..<length (s_temp s)}" by simp
  show "\<forall>i \<in> {..<length (s_temp s)}.
          nat (BurstDuration (s_temp (sjf_tick cond processes s) ! i)) \<le> nat (BurstDuration (s_temp s ! i))"
    using len by (simp add: tick_temp_nth acc_temp_def nat_pred_le)
  show "\<exists>i \<in> {..<length (s_temp s)}.
          nat (BurstDuration (s_temp (sjf_tick cond processes s) ! i)) < nat (BurstDuration (s_temp s ! i))"
    using len c b a by (intro bexI[of _ "s_current s"]) (simp_all add: tick_temp_nth acc_temp_def)
qed

lemma wait_arrival_tick_le:
  assumes len: "length (s_temp s) = length (s_pd s)"
  shows "sjf_wait_arrival processes (sjf_tick cond processes s) \<le> sjf_wait_arrival processes s"
  by (simp add: sjf_wait_arrival_def tick_time[OF len])

lemma wait_arrival_tick_less:
  assumes len: "length (s_temp s) = length (s_pd s)" and "s_time s \<le> max_arrival processes"
  shows "sjf_wait_arrival processes (sjf_tick cond processes s) < sjf_wait_arrival processes s"
  using assms by (simp add: sjf_wait_arrival_def tick_time[OF len])

lemma lex3_less:
  assumes "(a'::nat) \<le> a" and "(b'::nat) \<le> b" and "a' < a \<or> b' < b \<or> (c'::nat) < c"
  shows "a' < a \<or> a' = a \<and> (b' < b \<or> b' = b \<and> c' < c)"
  using assms by auto

lemma sjf_tick_decreases:
  assumes live: "sjf_live processes s" and more: "\<not> noMoreProcesses (s_pd s)"
    and cond: "\<And>s i. BurstDuration (s_temp s ! s_current s) < 1 \<Longrightarrow> cond s i"
  shows "(sjf_tick cond processes s, s) \<in> measures [sjf_work, sjf_wait_arrival processes, sjf_idle]"
proof -
  let ?t = "sjf_tick cond processes s"
  let ?s1 = "fst (sjf_account s)"
  let ?c = "s_current s"
  from live have len: "length (s_temp s) = length (s_pd s)"
    and lp: "length (s_pd s) = length processes"
    and c: "?c < length processes" and t: "0 \<le> s_time s"
    and e: "\<And>i. i < length processes \<Longrightarrow>
           ArrivalTime (s_temp s ! i) = ArrivalTime (processes ! i)
           \<and> 0 \<le> ArrivalTime (processes ! i)
           \<and> (exit (s_pd s ! i) = 0 \<longrightarrow> 0 < BurstDuration (s_temp s ! i))
           \<and> (exit (s_pd s ! i) \<noteq> 0 \<longrightarrow> BurstDuration (s_temp s ! i) \<le> 0)"
    by (simp_all add: sjf_live_def)
  from more obtain k where k: "k < length processes" and ek: "exit (s_pd s ! k) = 0"
    using lp by (auto simp: noMoreProcesses_iff in_set_conv_nth)
  have some: "sjf_work ?t < sjf_work s \<or> sjf_wait_arrival processes ?t < sjf_wait_arrival processes s
              \<or> sjf_idle ?t < sjf_idle s"
  proof (cases "0 < BurstDuration (s_temp s ! ?c)")
    case True
    show ?thesis
    proof (cases "ArrivalTime (s_temp s ! ?c) < s_time s")
      case a: True
      from work_tick_less[OF len _ True a] c lp show ?thesis by simp
    next
      case False
      then have "s_time s \<le> ArrivalTime (processes ! ?c)" using e[OF c] by simp
      also have "\<dots> \<le> max_arrival processes" using c by (simp add: max_arrival_ge)
      finally show ?thesis using wait_arrival_tick_less[OF len] by simp
    qed
  next
    case False
    then have idle: "BurstDuration (s_temp s ! ?c) \<le> 0" by simp
    have c1: "BurstDuration (s_temp ?s1 ! s_current ?s1) < 1"
      using idle len c lp by (simp add: acc_current acc_temp_nth acc_temp_def)
    show ?thesis
    proof (cases "\<exists>i < length processes. exit (s_pd s ! i) = 0 \<and> ArrivalTime (processes ! i) \<le> s_time s")
      case True
      then obtain i where i: "i < length processes" and ei: "exit (s_pd s ! i) = 0"
        and ai: "ArrivalTime (processes ! i) \<le> s_time s" by blast
      from e[OF i] ei idle have ic: "i \<noteq> ?c" by auto
      have "exit (s_pd ?s1 ! i) = 0"
        using i ei ic len lp idle by (simp add: acc_pd_nth acc_pd_def)
      then have "sel_elig cond processes ?s1 i"
        using ai cond[OF c1] len by (simp add: sel_elig_def acc_time)
      then have ex: "\<exists>i < length processes. sel_elig cond processes ?s1 i" using i by blast
      let ?new = "fst (sjf_select cond processes ?s1 (snd (sjf_account s)))"
      from sel_new[OF ex] have n: "?new < length processes"
        and en: "sel_elig cond processes ?s1 ?new" by simp_all
      have cur: "s_current ?t = ?new"
        using ex by (simp add: sjf_tick_eq switch_current sel_swapped)
      from en have "exit (s_pd ?s1 ! ?new) = 0" by (simp add: sel_elig_def)
      then have "exit (acc_pd s ?new) = 0" using n len lp by (simp add: acc_pd_nth)
      moreover from e[OF n] have "0 \<le> ArrivalTime (s_temp s ! ?new)" by simp
      ultimately have "0 < BurstDuration (acc_temp s ?new)"
        using acc_live_entry[of s ?new] e[OF n] by blast
      then have "0 < BurstDuration (s_temp ?t ! s_current ?t)"
        using cur n len lp by (simp add: tick_temp_nth)
      then have "sjf_idle ?t = 0" by (simp add: sjf_idle_def)
      moreover have "sjf_idle s = 1" using idle by (simp add: sjf_idle_def)
      ultimately show ?thesis by simp
    next
      case False
      with k ek have "s_time s < ArrivalTime (processes ! k)" by force
      also have "\<dots> \<le> max_arrival processes" using k by (simp add: max_arrival_ge)
      finally show ?thesis using wait_arrival_tick_less[OF len] by simp
    qed
  qed
  from lex3_less[OF work_tick_le[OF len] wait_arrival_tick_le[OF len] some]
  show ?thesis by simp
qed

lemma sjf_cond_idle: "BurstDuration (s_temp s ! s_current s) < 1 \<Longrightarrow> sjf_cond s i"
  by (simp add: sjf_cond_def)

lemma sjfp_cond_idle: "BurstDuration (s_temp s ! s_current s) < 1 \<Longrightarrow> sjfp_cond s i"
  by (simp add: sjfp_cond_def)

lemma sjf_loop_returns:
  assumes "processes \<noteq> []" and "\<forall>p \<in> set processes. 0 \<le> ArrivalTime p \<and> 0 < BurstDuration p"
    and cond: "\<And>s i. BurstDuration (s_temp s ! s_current s) < 1 \<Longrightarrow> cond s i"
  shows "\<exists>s. sjf_loop cond processes (sjf_init processes) = Some s"
proof (rule sjf_loop_total[where I = "sjf_live processes"
        and R = "measures [sjf_work, sjf_wait_arrival processes, sjf_idle]"])
  show "wf (measures [sjf_work, sjf_wait_arrival processes, sjf_idle])" by simp
  show "sjf_live processes (sjf_init processes)" by (rule sjf_live_init[OF assms(1,2)])
  show "sjf_live processes (sjf_tick cond processes s)
        \<and> (sjf_tick cond processes s, s) \<in> measures [sjf_work, sjf_wait_arrival processes, sjf_idle]"
    if "sjf_live processes s" and "\<not> noMoreProcesses (s_pd s)" for s
    using sjf_live_tick[OF that(1)] sjf_tick_decreases[OF that cond] by simp
qed

section \<open>Lemmas on the round-robin loop\<close>

lemma rr_visit_skip: "r_timeLeft s ! i \<le> 0 \<Longrightarrow> rr_visit processes i (s, d) = (s, d)"
  by (simp add: rr_visit_def)

lemma rr_visit_done: "0 < r_timeLeft s ! i \<Longrightarrow> \<not> snd (rr_visit processes i (s, d))"
  by (simp add: rr_visit_def Let_def)

lemma rr_visit_timeLeft:
  "0 < r_timeLeft s ! i \<Longrightarrow>
   r_timeLeft (fst (rr_visit processes i (s, d))) =
     (r_timeLeft s)[i := (if val < r_timeLeft s ! i then r_timeLeft s ! i - val else 0)]"
  by (simp add: rr_visit_def Let_def)

lemma rr_visit_currentTime:
  "0 < r_timeLeft s ! i \<Longrightarrow>
   r_currentTime (fst (rr_visit processes i (s, d))) =
     r_currentTime s + (if val < r_timeLeft s ! i then val else r_timeLeft s ! i)"
  by (simp add: rr_visit_def Let_def)

lemma rr_visit_processData:
  "0 < r_timeLeft s ! i \<Longrightarrow>
   r_processData (fst (rr_visit processes i (s, d))) =
     (if val < r_timeLeft s ! i then r_processData s
      else (r_processData s)[i := (r_processData s ! i)
             \<lparr>turnaroundTime := r_currentTime s + r_timeLeft s ! i - ArrivalTime (processes ! i)\<rparr>])"
  by (simp add: rr_visit_def Let_def)

lemma rr_visit_gantt:
  "0 < r_timeLeft s ! i \<Longrightarrow>
   r_gantt (fst (rr_visit processes i (s, d))) =
     (if 0 < i \<and> ProcessID (processes ! i) \<noteq> ProcessID (processes ! (i - 1))
      then r_gantt s @
        [\<lparr>PID = ProcessID (processes ! (i - 1)),
          Start = r_currentTime (fst (rr_visit processes i (s, d))) - val,
          Stop = r_currentTime (fst (rr_visit processes i (s, d)))\<rparr>]
      else r_gantt s)"
  by (simp add: rr_visit_def Let_def)

lemma rr_visit_length:
  "length (r_timeLeft (fst (rr_visit processes i (s, d)))) = length (r_timeLeft s)"
  by (cases "0 < r_timeLeft s ! i") (simp_all add: rr_visit_timeLeft rr_visit_skip)

lemma rr_visit_work_less:
  assumes i: "i < length (r_timeLeft s)" and pos: "0 < r_timeLeft s ! i"
  shows "rr_work (fst (rr_visit processes i (s, d))) < rr_work s"
  unfolding rr_work_def rr_visit_length
proof (rule sum_strict_mono_ex1)
  show "finite {..<length (r_timeLeft s)}" by simp
  show "\<forall>j \<in> {..<length (r_timeLeft s)}.
          nat (r_timeLeft (fst (rr_visit processes i (s, d))) ! j) \<le> nat (r_timeLeft s ! j)"
    using pos i by (auto simp: rr_visit_timeLeft nth_list_update val_def)
  show "\<exists>j \<in> {..<length (r_timeLeft s)}.
          nat (r_timeLeft (fst (rr_visit processes i (s, d))) ! j) < nat (r_timeLeft s ! j)"
    using i pos by (intro bexI[of _ i]) (simp_all add: rr_visit_timeLeft val_def)
qed

lemma sweep_upto_step:
  assumes k: "k < length (r_timeLeft s)" and inv: "sweep_upto s k a"
  shows "sweep_upto s (Suc k) (rr_visit processes k a)"
proof -
  obtain s' d where a: "a = (s', d)" by (cases a)
  from inv a have len: "length (r_timeLeft s') = length (r_timeLeft s)"
    and dn: "d \<Longrightarrow> s' = s \<and> (\<forall>i < k. r_timeLeft s ! i \<le> 0)"
    and nd: "\<not> d \<Longrightarrow> rr_work s' < rr_work s"
    by (simp_all add: sweep_upto_def split: if_splits)
  show ?thesis
  proof (cases "0 < r_timeLeft s' ! k")
    case True
    have "rr_work (fst (rr_visit processes k (s', d))) < rr_work s'"
      using rr_visit_work_less[OF _ True] k len by simp
    moreover have "rr_work s' \<le> rr_work s" using dn nd by (cases d) auto
    ultimately show ?thesis
      using rr_visit_done[OF True, of processes d] len
      by (simp add: a sweep_upto_def split_beta rr_visit_length)
  next
    case False
    then have skip: "rr_visit processes k (s', d) = (s', d)" by (simp add: rr_visit_skip)
    show ?thesis
    proof (cases d)
      case True
      with dn have "s' = s" and "\<forall>i < k. r_timeLeft s ! i \<le> 0" by simp_all
      with False True show ?thesis unfolding a skip
        by (auto simp: sweep_upto_def less_Suc_eq)
    next
      case False
      with nd len show ?thesis unfolding a skip by (simp add: sweep_upto_def)
    qed
  qed
qed

lemma rr_sweep_upto:
  assumes "length (r_timeLeft s) = length processes"
  shows "sweep_upto s (length processes) (rr_sweep processes s)"
  unfolding rr_sweep_def
proof (rule foldl_upt_invariant[where P = "sweep_upto s"])
  show "sweep_upto s 0 (s, True)" by (simp add: sweep_upto_def)
next
  fix i a assume "i < length processes" and "sweep_upto s i a"
  then show "sweep_upto s (Suc i) (rr_visit processes i a)"
    using sweep_upto_step[of i s a processes] assms by simp
qed

lemma rr_sweep_preserves:
  assumes "I s" and "\<And>i s d. i < length processes \<Longrightarrow> I s \<Longrightarrow> I (fst (rr_visit processes i (s, d)))"
  shows "I (fst (rr_sweep processes s))"
  unfolding rr_sweep_def
  by (rule foldl_upt_invariant[where P = "\<lambda>k a. I (fst a)"])
     (use assms in \<open>auto simp: split_paired_all\<close>)

lemma rr_loop_rule:
  assumes run: "rr_loop processes s = Some s'"
    and init: "I s"
    and step: "\<And>s. I s \<Longrightarrow> I (fst (rr_sweep processes s))"
  shows "\<exists>s0. I s0 \<and> rr_sweep processes s0 = (s', True)"
proof -
  have "p = processes \<longrightarrow> I s0 \<longrightarrow> (\<exists>s1. I s1 \<and> rr_sweep processes s1 = (t, True))"
    if "rr_loop p s0 = Some t" for p s0 t
  proof (rule rr_loop.raw_induct[where P = "\<lambda>p s t. p = processes \<longrightarrow> I s
              \<longrightarrow> (\<exists>s1. I s1 \<and> rr_sweep processes s1 = (t, True))", OF _ that], intro impI)
    fix f p' s1 t1
    assume IH: "\<And>p s t. f p s = Some t \<Longrightarrow>
                  p = processes \<longrightarrow> I s \<longrightarrow> (\<exists>s1. I s1 \<and> rr_sweep processes s1 = (t, True))"
      and body: "(case rr_sweep p' s1 of (s', done) \<Rightarrow> if done then Some s' else f p' s') = Some t1"
      and p: "p' = processes" and I: "I s1"
    show "\<exists>s1. I s1 \<and> rr_sweep processes s1 = (t1, True)"
    proof (cases "snd (rr_sweep processes s1)")
      case True
      then have "rr_sweep processes s1 = (t1, True)"
        using body p by (cases "rr_sweep processes s1") simp
      then show ?thesis using I by blast
    next
      case False
      then have "f processes (fst (rr_sweep processes s1)) = Some t1"
        using body p by (cases "rr_sweep processes s1") simp
      from IH[OF this] step[OF I] show ?thesis by simp
    qed
  qed
  then show ?thesis using run init by blast
qed

lemma rr_loop_total:
  assumes "length (r_timeLeft s) = length processes"
  shows "\<exists>s'. rr_loop processes s = Some s'"
  using assms
proof (induction "rr_work s" arbitrary: s rule: less_induct)
  case less
  from rr_sweep_upto[OF less.prems] have up: "sweep_upto s (length processes) (rr_sweep processes s)" .
  show ?case
  proof (cases "snd (rr_sweep processes s)")
    case True
    then show ?thesis by (subst rr_loop.simps) (simp add: split_beta)
  next
    case False
    with up have "rr_work (fst (rr_sweep processes s)) < rr_work s"
      and "length (r_timeLeft (fst (rr_sweep processes s))) = length processes"
      using less.prems by (simp_all add: sweep_upto_def split_beta)
    from less.hyps[OF this] False show ?thesis
      by (subst rr_loop.simps) (simp add: split_beta)
  qed
qed

lemma rr_fine_init: "rr_fine processes (rr_init processes)"
  by (simp add: rr_fine_def rr_init_def gantt_sorted_def)

lemma gantt_sorted_snoc:
  "gantt_sorted g \<Longrightarrow> \<forall>x \<in> set g. Start x \<le> a \<Longrightarrow>
   gantt_sorted (g @ [\<lparr>PID = p, Start = a, Stop = b\<rparr>])"
  by (simp add: gantt_sorted_def sorted_wrt_append)

lemma rr_fine_visit:
  assumes i: "i < length processes" and fine: "rr_fine processes s"
  shows "rr_fine processes (fst (rr_visit processes i (s, d)))"
proof (cases "0 < r_timeLeft s ! i")
  case False
  then show ?thesis using fine by (simp add: rr_visit_skip)
next
  case True
  let ?s' = "fst (rr_visit processes i (s, d))"
  from fine have lt: "length (r_timeLeft s) = length processes"
    and lp: "length (r_processData s) = length processes"
    and gs: "gantt_sorted (r_gantt s)"
    and gb: "\<And>x. x \<in> set (r_gantt s) \<Longrightarrow> Start x \<le> r_currentTime s - val"
    and e: "\<And>j. j < length processes \<Longrightarrow>
           (0 < r_timeLeft s ! j \<longrightarrow> BurstDuration (processes ! j) \<le> r_currentTime s + r_timeLeft s ! j)
           \<and> (r_timeLeft s ! j \<le> 0 \<longrightarrow> 0 < BurstDuration (processes ! j) \<longrightarrow>
                BurstDuration (processes ! j)
                  \<le> turnaroundTime (r_processData s ! j) + ArrivalTime (processes ! j))"
    by (simp_all add: rr_fine_def)
  have ct: "r_currentTime s \<le> r_currentTime ?s'"
    using True by (simp add: rr_visit_currentTime val_def)
  have gb': "\<forall>x \<in> set (r_gantt s). Start x \<le> r_currentTime ?s' - val"
    using gb ct by fastforce
  have g1: "gantt_sorted (r_gantt ?s')"
    using gs gb' by (simp add: rr_visit_gantt[OF True] gantt_sorted_snoc)
  have g2: "\<forall>x \<in> set (r_gantt ?s'). Start x \<le> r_currentTime ?s' - val"
    using gb' by (simp add: rr_visit_gantt[OF True])
  have e': "(0 < r_timeLeft ?s' ! j \<longrightarrow> BurstDuration (processes ! j) \<le> r_currentTime ?s' + r_timeLeft ?s' ! j)
           \<and> (r_timeLeft ?s' ! j \<le> 0 \<longrightarrow> 0 < BurstDuration (processes ! j) \<longrightarrow>
                BurstDuration (processes ! j)
                  \<le> turnaroundTime (r_processData ?s' ! j) + ArrivalTime (processes ! j))"
    if j: "j < length processes" for j
  proof (cases "j = i")
    case eq: True
    from e[OF i] True have "BurstDuration (processes ! i) \<le> r_currentTime s + r_timeLeft s ! i"
      by simp
    then show ?thesis using True i lt lp eq
      by (simp add: rr_visit_timeLeft rr_visit_currentTime rr_visit_processData val_def)
  next
    case ne: False
    from e[OF j] show ?thesis using True ne j lt lp
      by (auto simp: rr_visit_timeLeft rr_visit_currentTime rr_visit_processData val_def)
  qed
  show ?thesis
    unfolding rr_fine_def
    using g1 g2 e' lt lp True
    by (simp add: rr_visit_length rr_visit_processData)
qed

lemma rr_fine_sweep: "rr_fine processes s \<Longrightarrow> rr_fine processes (fst (rr_sweep processes s))"
  by (rule rr_sweep_preserves[where I = "rr_fine processes"]) (simp_all add: rr_fine_visit)

lemma rr_loop_final:
  assumes "rr_loop processes (rr_init processes) = Some s"
  shows "rr_fine processes s \<and> (\<forall>i < length processes. r_timeLeft s ! i \<le> 0)"
proof -
  from rr_loop_rule[OF assms, where I = "rr_fine processes", OF rr_fine_init rr_fine_sweep]
  obtain s0 where f: "rr_fine processes s0" and sw: "rr_sweep processes s0 = (s, True)" by blast
  from f have "length (r_timeLeft s0) = length processes" by (simp add: rr_fine_def)
  from rr_sweep_upto[OF this] sw have "s = s0 \<and> (\<forall>i < length processes. r_timeLeft s0 ! i \<le> 0)"
    by (simp add: sweep_upto_def)
  then show ?thesis using f by simp
qed

lemma rr_loop_returns: "\<exists>s. rr_loop processes (rr_init processes) = Some s"
  by (rule rr_loop_total) (simp add: rr_init_def)

section \<open>Further lemmas on FCFSSchedule\<close>

lemma fcfs_wait_nth:
  assumes "i < length ps"
  shows "row_wait (f_schedule (foldl fcfs_step fcfs_init ps) ! i) =
     (if ArrivalTime (ps ! i) > 0
      then sum_list (map BurstDuration (take i ps)) - ArrivalTime (ps ! i)
      else if i = 0 then 0
      else row_wait (f_schedule (foldl fcfs_step fcfs_init ps) ! (i - 1)))"
proof -
  let ?S = "\<lambda>qs. foldl fcfs_step fcfs_init qs"
  have row: "row_wait (f_schedule (?S ps) ! i) = fcfs_wait (?S (take i ps)) (ps ! i)"
    using fcfs_row_nth[OF assms] by (simp add: fcfs_step_schedule)
  have st: "f_serviceTime (?S (take i ps)) = sum_list (map BurstDuration (take i ps))"
    by (simp add: fcfs_fold_serviceTime fcfs_init_def)
  have wt: "f_waitingTime (?S (take i ps)) =
      (if i = 0 then 0 else row_wait (f_schedule (?S ps) ! (i - 1)))"
  proof (cases i)
    case 0
    then show ?thesis by (simp add: fcfs_init_def)
  next
    case (Suc k)
    have ne: "take i ps \<noteq> []" using assms Suc by auto
    have len: "length (f_schedule (?S ps)) = length ps"
      by (simp add: fcfs_fold_length fcfs_init_def)
    have "f_waitingTime (?S (take i ps)) = row_wait (last (f_schedule (?S (take i ps))))"
      using fcfs_fold_waitingTime[of "take i ps"] ne by simp
    also have "f_schedule (?S (take i ps)) = take i (f_schedule (?S ps))"
      by (rule fcfs_schedule_take)
    also have "last (take i (f_schedule (?S ps))) = f_schedule (?S ps) ! (i - 1)"
      using assms Suc len by (simp add: take_Suc_conv_app_nth)
    finally show ?thesis using Suc by simp
  qed
  show ?thesis using row st wt by (simp add: fcfs_wait_def)
qed

lemma fcfs_out_schedule: "out_schedule (FCFSSchedule ps) = f_schedule (foldl fcfs_step fcfs_init ps)"
  by (simp add: FCFSSchedule_def Let_def)

lemma fcfs_out_gantt: "out_gantt (FCFSSchedule ps) = f_gantt (foldl fcfs_step fcfs_init ps)"
  by (simp add: FCFSSchedule_def Let_def)



lemma fcfs_rows_turnaround:
  "list_all (\<lambda>r. row_turnaround r = row_wait r + row_burst r) (f_schedule s) \<Longrightarrow>
   list_all (\<lambda>r. row_turnaround r = row_wait r + row_burst r) (f_schedule (foldl fcfs_step s ps))"
  by (induction ps rule: rev_induct) (simp_all add: fcfs_step_schedule)

lemma fcfs_rows_burst:
  "map row_burst (f_schedule (foldl fcfs_step s ps)) =
     map row_burst (f_schedule s) @ map BurstDuration ps"
  by (induction ps rule: rev_induct) (simp_all add: fcfs_step_schedule)

lemma fcfs_chain_later:
  assumes "chained 0 (f_gantt s) (f_serviceTime s)"
    and "\<forall>p \<in> set ps. 0 < ArrivalTime p \<and> 0 \<le> BurstDuration p"
  shows "chained 0 (f_gantt (foldl fcfs_step s ps)) (f_serviceTime (foldl fcfs_step s ps))"
  using assms
proof (induction ps rule: rev_induct)
  case Nil
  then show ?case by simp
next
  case (snoc p ps)
  then have c: "chained 0 (f_gantt (foldl fcfs_step s ps)) (f_serviceTime (foldl fcfs_step s ps))"
    and p: "0 < ArrivalTime p" "0 \<le> BurstDuration p" by simp_all
  show ?case using p chained_snoc[OF c]
    by (simp add: fcfs_step_gantt fcfs_step_serviceTime fcfs_wait_def)
qed

lemma fcfs_chain:
  assumes "\<forall>p \<in> set ps. 0 \<le> ArrivalTime p \<and> 0 \<le> BurstDuration p"
    and "\<forall>p \<in> set (tl ps). 0 < ArrivalTime p"
  shows "chained 0 (f_gantt (foldl fcfs_step fcfs_init ps)) (f_serviceTime (foldl fcfs_step fcfs_init ps))"
proof (cases ps)
  case Nil
  then show ?thesis by (simp add: fcfs_init_def)
next
  case (Cons p qs)
  have first: "chained 0 (f_gantt (fcfs_step fcfs_init p)) (f_serviceTime (fcfs_step fcfs_init p))"
    using assms(1) Cons
    by (auto simp: fcfs_step_gantt fcfs_step_serviceTime fcfs_wait_def fcfs_init_def)
  have "\<forall>q \<in> set qs. 0 < ArrivalTime q \<and> 0 \<le> BurstDuration q"
    using assms Cons by simp
  from fcfs_chain_later[OF first this] show ?thesis using Cons by simp
qed

section \<open>Lemmas on what the schedulers return\<close>

lemma sjf_run_Some:
  "sjf_run cond processes = Some r \<Longrightarrow>
   \<exists>s. sjf_loop cond processes (sjf_init processes) = Some s \<and> r = sjf_report processes s"
  by (auto simp: sjf_run_def split: option.splits)

lemma sjf_report_gantt: "out_gantt (sjf_report processes s) = s_gantt s"
  by (simp add: sjf_report_def Let_def)

lemma sjf_report_schedule:
  "out_schedule (sjf_report processes s) = map (sjf_row processes (s_pd s)) [0..<length (s_pd s)]"
  by (simp add: sjf_report_def Let_def)

lemma sjf_report_processes: "out_processes (sjf_report processes s) = processes"
  by (simp add: sjf_report_def Let_def)

lemma sjf_rows_turnaround:
  "list_all (\<lambda>r. row_turnaround r = row_wait r + row_burst r) (out_schedule (sjf_report processes s))"
  by (simp add: sjf_report_schedule list_all_iff sjf_row_def)

lemma sjf_rows_burst:
  "length (s_pd s) = length processes \<Longrightarrow>
   map row_burst (out_schedule (sjf_report processes s)) = map BurstDuration processes"
  by (rule nth_equalityI) (simp_all add: sjf_report_schedule sjf_row_def)

lemma sjf_rows_wait:
  "sjf_basic processes s \<Longrightarrow>
   list_all (\<lambda>r. 0 \<le> row_wait r) (out_schedule (sjf_report processes s))"
  by (simp add: sjf_report_schedule list_all_iff sjf_row_def sjf_basic_def)

lemma sjf_rows_exit:
  "noMoreProcesses (s_pd s) \<Longrightarrow>
   list_all (\<lambda>r. row_exit r \<noteq> 0) (out_schedule (sjf_report processes s))"
  by (simp add: sjf_report_schedule list_all_iff sjf_row_def noMoreProcesses_iff)

lemma sjf_run_props:
  assumes "sjf_run cond processes = Some r"
  shows "list_all (\<lambda>r. row_turnaround r = row_wait r + row_burst r) (out_schedule r)"
    and "map row_burst (out_schedule r) = map BurstDuration processes"
    and "list_all (\<lambda>r. 0 \<le> row_wait r) (out_schedule r)"
    and "list_all (\<lambda>r. row_exit r \<noteq> 0) (out_schedule r)"
    and "gantt_sorted (out_gantt r)" and "gantt_disjoint (out_gantt r)"
    and "out_processes r = processes"
proof -
  from sjf_run_Some[OF assms] obtain s
    where s: "sjf_loop cond processes (sjf_init processes) = Some s"
      and r: "r = sjf_report processes s" by blast
  from sjf_loop_basic[OF s] have b: "sjf_basic processes s" and n: "noMoreProcesses (s_pd s)"
    by simp_all
  from b have ch: "chained 0 (s_gantt s) (s_start s)" and len: "length (s_pd s) = length processes"
    by (simp_all add: sjf_basic_def)
  show "list_all (\<lambda>r. row_turnaround r = row_wait r + row_burst r) (out_schedule r)"
    unfolding r by (rule sjf_rows_turnaround)
  show "map row_burst (out_schedule r) = map BurstDuration processes"
    unfolding r by (rule sjf_rows_burst[OF len])
  show "list_all (\<lambda>r. 0 \<le> row_wait r) (out_schedule r)"
    unfolding r by (rule sjf_rows_wait[OF b])
  show "list_all (\<lambda>r. row_exit r \<noteq> 0) (out_schedule r)"
    unfolding r by (rule sjf_rows_exit[OF n])
  show "gantt_sorted (out_gantt r)"
    unfolding r sjf_report_gantt by (rule chained_gantt_sorted[OF ch])
  show "gantt_disjoint (out_gantt r)"
    unfolding r sjf_report_gantt by (rule chained_gantt_disjoint[OF ch])
  show "out_processes r = processes"
    unfolding r by (rule sjf_report_processes)
qed

lemma sjf_run_returns:
  assumes "processes \<noteq> []" and "\<forall>p \<in> set processes. 0 \<le> ArrivalTime p \<and> 0 < BurstDuration p"
    and cond: "\<And>s i. BurstDuration (s_temp s ! s_current s) < 1 \<Longrightarrow> cond s i"
  shows "\<exists>r. sjf_run cond processes = Some r"
proof -
  from sjf_loop_returns[of processes cond, OF assms(1,2) cond]
  obtain s where "sjf_loop cond processes (sjf_init processes) = Some s" by blast
  then show ?thesis by (simp add: sjf_run_def)
qed

lemma rr_Some:
  "RRSchedule processes0 = Some r \<Longrightarrow>
   \<exists>s. rr_loop (sortSlice processes0) (rr_init (sortSlice processes0)) = Some s
        \<and> r = rr_report (sortSlice processes0) s"
  by (auto simp: RRSchedule_def Let_def split: option.splits)


lemma rr_report_schedule:
  "out_schedule (rr_report processes s) =
     map (rr_row processes (r_processData s)) [0..<length processes]"
  by (simp add: rr_report_def Let_def)

lemma rr_report_processes: "out_processes (rr_report processes s) = processes"
  by (simp add: rr_report_def Let_def)

lemma rr_report_gantt:
  "out_gantt (rr_report processes s) =
     (if 0 < length processes
      then r_gantt s @
        [\<lparr>PID = ProcessID (processes ! (length processes - 1)),
          Start = r_currentTime s - r_timeLeft s ! (length processes - 1),
          Stop = r_currentTime s\<rparr>]
      else r_gantt s)"
  by (simp add: rr_report_def Let_def)

lemma rr_rows_wait:
  "list_all (\<lambda>r. row_wait r = row_turnaround r - row_burst r) (out_schedule (rr_report processes s))"
  by (simp add: rr_report_schedule list_all_iff rr_row_def Let_def)

lemma rr_rows_burst:
  "map row_burst (out_schedule (rr_report processes s)) = map BurstDuration processes"
  by (rule nth_equalityI) (simp_all add: rr_report_schedule rr_row_def Let_def)

lemma rr_rows_bound:
  assumes "rr_fine processes s" and "\<forall>i < length processes. r_timeLeft s ! i \<le> 0"
  shows "list_all (\<lambda>r. 0 < row_burst r \<longrightarrow> 0 \<le> row_wait r + row_arrival r)
           (out_schedule (rr_report processes s))"
  using assms by (auto simp: rr_report_schedule list_all_iff rr_row_def Let_def rr_fine_def)

lemma rr_gantt_sorted:
  assumes "rr_fine processes s" and "\<forall>i < length processes. r_timeLeft s ! i \<le> 0"
  shows "gantt_sorted (out_gantt (rr_report processes s))"
proof (cases "0 < length processes")
  case False
  then show ?thesis using assms(1) by (simp add: rr_report_gantt rr_fine_def)
next
  case True
  then have "r_timeLeft s ! (length processes - 1) \<le> 0" using assms(2) by simp
  then have "\<forall>x \<in> set (r_gantt s). Start x \<le> r_currentTime s - r_timeLeft s ! (length processes - 1)"
    using assms(1) by (fastforce simp: rr_fine_def val_def)
  then show ?thesis using True assms(1)
    by (simp add: rr_report_gantt gantt_sorted_snoc rr_fine_def)
qed

lemma sortSlice_sorted: "sorted (map ArrivalTime (sortSlice processes))"
  by (simp add: sortSlice_def)

lemma sortSlice_mset: "mset (sortSlice processes) = mset processes"
  by (simp add: sortSlice_def)

lemma rr_props:
  assumes "RRSchedule processes0 = Some r"
  shows "list_all (\<lambda>r. row_wait r = row_turnaround r - row_burst r) (out_schedule r)"
    and "map row_burst (out_schedule r) = map BurstDuration (out_processes r)"
    and "list_all (\<lambda>r. 0 < row_burst r \<longrightarrow> 0 \<le> row_wait r + row_arrival r) (out_schedule r)"
    and "gantt_sorted (out_gantt r)"
    and "out_processes r = sortSlice processes0"
proof -
  from rr_Some[OF assms] obtain s
    where s: "rr_loop (sortSlice processes0) (rr_init (sortSlice processes0)) = Some s"
      and r: "r = rr_report (sortSlice processes0) s" by blast
  from rr_loop_final[OF s] have f: "rr_fine (sortSlice processes0) s"
    and z: "\<forall>i < length (sortSlice processes0). r_timeLeft s ! i \<le> 0" by simp_all
  show "list_all (\<lambda>r. row_wait r = row_turnaround r - row_burst r) (out_schedule r)"
    unfolding r by (rule rr_rows_wait)
  show "map row_burst (out_schedule r) = map BurstDuration (out_processes r)"
    unfolding r by (simp add: rr_rows_burst rr_report_processes)
  show "list_all (\<lambda>r. 0 < row_burst r \<longrightarrow> 0 \<le> row_wait r + row_arrival r) (out_schedule r)"
    unfolding r by (rule rr_rows_bound[OF f z])
  show "gantt_sorted (out_gantt r)"
    unfolding r by (rule rr_gantt_sorted[OF f z])
  show "out_processes r = sortSlice processes0"
    unfolding r by (rule rr_report_processes)
qed

section \<open>Runs that never leave the loop\<close>

lemma sjf_stuck_tick:
  assumes one: "length processes = 1" and st: "sjf_stuck s"
  shows "sjf_stuck (sjf_tick cond processes s)"
proof -
  from st have len: "length (s_temp s) = length (s_pd s)" and lp: "length (s_pd s) = 1"
    and c: "s_current s = 0" and e: "exit (s_pd s ! 0) = 0"
    and b: "BurstDuration (s_temp s ! 0) \<le> 0
        \<or> (s_time s = 0 \<and> BurstDuration (s_temp s ! 0) = 1 \<and> ArrivalTime (s_temp s ! 0) < 0)"
    by (simp_all add: sjf_stuck_def)
  have cur: "s_current (sjf_tick cond processes s) = 0"
    using tick_current_less[OF len, of processes cond] c one by simp
  have ex: "exit (s_pd (sjf_tick cond processes s) ! 0) = 0"
    using b e c lp len by (auto simp: tick_pd_nth acc_pd_def)
  have bu: "BurstDuration (s_temp (sjf_tick cond processes s) ! 0) \<le> 0"
    using b c lp len by (auto simp: tick_temp_nth acc_temp_def)
  show ?thesis
    using cur ex bu len lp by (simp add: sjf_stuck_def tick_length_temp tick_length_pd)
qed

lemma sjf_stuck_more: "sjf_stuck s \<Longrightarrow> \<not> noMoreProcesses (s_pd s)"
proof -
  assume st: "sjf_stuck s"
  then have "s_pd s ! 0 \<in> set (s_pd s)" by (simp add: sjf_stuck_def)
  moreover from st have "exit (s_pd s ! 0) = 0" by (simp add: sjf_stuck_def)
  ultimately show ?thesis unfolding noMoreProcesses_iff by blast
qed

lemma sjf_stuck_diverges:
  assumes one: "length processes = 1" and st: "sjf_stuck s"
  shows "sjf_loop cond processes s = None"
proof (rule ccontr)
  assume "sjf_loop cond processes s \<noteq> None"
  then obtain s' where run: "sjf_loop cond processes s = Some s'" by auto
  from sjf_loop_rule[OF run, where I = sjf_stuck, OF st] sjf_stuck_tick[OF one]
  have "sjf_stuck s' \<and> noMoreProcesses (s_pd s')" by blast
  then show False using sjf_stuck_more by blast
qed

lemma sjf_run_stuck:
  assumes "b \<le> 0 \<or> (b = 1 \<and> a < 0)"
  shows "sjf_run cond [proc i a b q] = None"
proof -
  have "sjf_stuck (sjf_init [proc i a b q])"
    using assms by (auto simp: sjf_stuck_def sjf_init_def proc_def)
  from sjf_stuck_diverges[OF _ this, of "[proc i a b q]" cond] show ?thesis
    by (simp add: sjf_run_def)
qed

section \<open>The remaining time at the end of the round-robin loop\<close>

lemma rr_nonneg_visit:
  assumes "\<forall>j < length (r_timeLeft s). 0 \<le> r_timeLeft s ! j"
  shows "\<forall>j < length (r_timeLeft s). 0 \<le> r_timeLeft (fst (rr_visit processes i (s, d))) ! j"
proof (cases "0 < r_timeLeft s ! i")
  case False
  then show ?thesis using assms by (simp add: rr_visit_skip)
next
  case True
  have "0 \<le> (r_timeLeft s)[i := v] ! j"
    if "j < length (r_timeLeft s)" and "0 \<le> v" for v j
    using that assms by (cases "i = j") simp_all
  then show ?thesis using True
    by (simp add: rr_visit_timeLeft val_def)
qed

lemma rr_loop_timeLeft_zero:
  assumes run: "rr_loop processes (rr_init processes) = Some s"
    and pos: "\<forall>p \<in> set processes. 0 \<le> BurstDuration p"
  shows "list_all (\<lambda>x. x = 0) (r_timeLeft s)"
proof -
  let ?I = "\<lambda>s :: rr_state. length (r_timeLeft s) = length processes
               \<and> (\<forall>j < length (r_timeLeft s). 0 \<le> r_timeLeft s ! j)"
  have init: "?I (rr_init processes)" using pos by (simp add: rr_init_def)
  have step: "?I (fst (rr_sweep processes s))" if "?I s" for s
  proof (rule rr_sweep_preserves[where I = ?I, OF that])
    fix i and s :: rr_state and d assume "i < length processes" and I: "?I s"
    from I rr_nonneg_visit[of s processes i d]
    show "?I (fst (rr_visit processes i (s, d)))" by (simp add: rr_visit_length)
  qed
  from rr_loop_rule[OF run, where I = ?I, OF init step]
  obtain s0 where i0: "?I s0" and sw: "rr_sweep processes s0 = (s, True)" by blast
  from i0 have "length (r_timeLeft s0) = length processes" by simp
  from rr_sweep_upto[OF this] sw have "s = s0" and "\<forall>i < length processes. r_timeLeft s0 ! i \<le> 0"
    by (simp_all add: sweep_upto_def)
  with i0 show ?thesis by (auto simp: list_all_length intro: antisym)
qed

section \<open>The two shortest-job simulations on inputs without ties\<close>

lemma sel_elig_agree:
  assumes "\<not> current_tie processes s" and "i < length processes"
  shows "sel_elig sjfp_cond processes s i \<longleftrightarrow> sel_elig sjf_cond processes s i"
proof (cases "i = s_current s")
  case True
  then show ?thesis by (simp add: sel_elig_def sjfp_cond_def sjf_cond_def)
next
  case False
  with assms have
    "exit (s_pd s ! i) = 0 \<Longrightarrow> ArrivalTime (processes ! i) \<le> s_time s \<Longrightarrow>
     BurstDuration (s_temp s ! i) \<noteq> BurstDuration (s_temp s ! s_current s)"
    by (auto simp: current_tie_def list_ex_iff)
  then show ?thesis by (auto simp: sel_elig_def sjfp_cond_def sjf_cond_def)
qed

lemma sjf_select_agree:
  assumes "\<not> current_tie processes s"
  shows "sjf_select sjfp_cond processes s sw = sjf_select sjf_cond processes s sw"
  unfolding sjf_select_def
  by (rule foldl_cong) (simp_all add: sjf_pick_elig sel_elig_agree[OF assms])

lemma sjf_tick_agree:
  assumes "\<not> current_tie processes (fst (sjf_account s))"
  shows "sjf_tick sjfp_cond processes s = sjf_tick sjf_cond processes s"
  by (simp add: sjf_tick_eq sjf_select_agree[OF assms])

section \<open>The clock of the shortest-job simulations\<close>

lemma max_arrival_nonneg: "0 \<le> max_arrival processes"
  unfolding max_arrival_def by (induction processes) auto

lemma sum_nat_bursts:
  assumes "\<forall>p \<in> set ps. 0 \<le> BurstDuration p"
  shows "int (\<Sum>i < length ps. nat (BurstDuration (ps ! i))) = sum_list (map BurstDuration ps)"
proof -
  have "sum_list (map BurstDuration ps) = (\<Sum>i < length ps. BurstDuration (ps ! i))"
    by (simp add: sum_list_sum_nth atLeast0LessThan)
  also have "\<dots> = (\<Sum>i < length ps. int (nat (BurstDuration (ps ! i))))"
    using assms by (intro sum.cong) simp_all
  finally show ?thesis by simp
qed

lemma sjf_paced_init:
  assumes "processes \<noteq> []" and "\<forall>p \<in> set processes. 0 \<le> ArrivalTime p \<and> 0 < BurstDuration p"
  shows "sjf_paced processes (sjf_init processes)"
proof -
  have w: "int (sjf_work (sjf_init processes)) = total_burst processes"
    using assms(2) sum_nat_bursts[of processes]
    by (simp add: sjf_work_def sjf_init_def total_burst_def less_imp_le)
  have "0 < BurstDuration (processes ! 0)" using assms by (simp add: hd_conv_nth[symmetric])
  then show ?thesis using w max_arrival_nonneg[of processes]
    by (simp add: sjf_paced_def sjf_init_def)
qed

lemma sjf_paced_tick:
  assumes live: "sjf_live processes s" and paced: "sjf_paced processes s"
    and more: "\<not> noMoreProcesses (s_pd s)"
    and cond: "\<And>s i. BurstDuration (s_temp s ! s_current s) < 1 \<Longrightarrow> cond s i"
  shows "sjf_paced processes (sjf_tick cond processes s)"
proof -
  let ?t = "sjf_tick cond processes s"
  let ?s1 = "fst (sjf_account s)"
  let ?c = "s_current s"
  let ?n = "length processes"
  from live have len: "length (s_temp s) = length (s_pd s)"
    and lp: "length (s_pd s) = ?n"
    and c: "?c < ?n" and t: "0 \<le> s_time s"
    and e: "\<And>i. i < ?n \<Longrightarrow>
           ArrivalTime (s_temp s ! i) = ArrivalTime (processes ! i)
           \<and> 0 \<le> ArrivalTime (processes ! i)
           \<and> (exit (s_pd s ! i) = 0 \<longrightarrow> 0 < BurstDuration (s_temp s ! i))
           \<and> (exit (s_pd s ! i) \<noteq> 0 \<longrightarrow> BurstDuration (s_temp s ! i) \<le> 0)"
    by (simp_all add: sjf_live_def)
  from paced have J: "\<And>i. BurstDuration (s_temp s ! ?c) \<le> 0 \<Longrightarrow> i < ?n \<Longrightarrow> exit (s_pd s ! i) = 0
        \<Longrightarrow> s_time s \<le> ArrivalTime (processes ! i)"
    and wb: "int (sjf_work s) \<le> total_burst processes"
    and K: "s_time s + int (sjf_work s) \<le> max_arrival processes + 1 + total_burst processes"
    and rg: "\<And>i. i < ?n \<Longrightarrow> waitingTime (s_pd s ! i) \<le> s_time s
           \<and> 0 \<le> exit (s_pd s ! i) \<and> exit (s_pd s ! i) \<le> s_time s"
    by (simp_all add: sjf_paced_def)
  from sjf_live_tick[OF live, of cond] have live': "sjf_live processes ?t" .
  then have e': "\<And>i. i < ?n \<Longrightarrow> exit (s_pd ?t ! i) = 0 \<Longrightarrow> 0 < BurstDuration (s_temp ?t ! i)"
    by (simp add: sjf_live_def)
  have time': "s_time ?t = s_time s + 1" by (rule tick_time[OF len])
  have wle: "sjf_work ?t \<le> sjf_work s" by (rule work_tick_le[OF len])
  \<comment> \<open>the current process after the tick\<close>
  have J': "s_time ?t \<le> ArrivalTime (processes ! i)"
    if b': "BurstDuration (s_temp ?t ! s_current ?t) \<le> 0" and i: "i < ?n"
      and ei: "exit (s_pd ?t ! i) = 0" for i
  proof (rule ccontr)
    assume "\<not> s_time ?t \<le> ArrivalTime (processes ! i)"
    then have ai: "ArrivalTime (processes ! i) \<le> s_time s" using time' by simp
    have e1: "exit (s_pd ?s1 ! i) = 0"
      using ei i len lp by (simp add: tick_pd_nth acc_pd_nth)
    show False
    proof (cases "\<exists>j < ?n. sel_elig cond processes ?s1 j")
      case True
      let ?new = "fst (sjf_select cond processes ?s1 (snd (sjf_account s)))"
      from sel_new[OF True] have n: "?new < ?n" and en: "sel_elig cond processes ?s1 ?new"
        by simp_all
      have cur: "s_current ?t = ?new"
        using True by (simp add: sjf_tick_eq switch_current sel_swapped)
      from en have "exit (s_pd ?s1 ! ?new) = 0" by (simp add: sel_elig_def)
      then have "exit (s_pd ?t ! ?new) = 0" using n len lp by (simp add: tick_pd_nth acc_pd_nth)
      from e'[OF n this] b' cur show False by simp
    next
      case False
      then have "\<not> sel_elig cond processes ?s1 i" using i by blast
      then have "\<not> cond ?s1 i" using e1 ai len by (simp add: sel_elig_def acc_time)
      then have "\<not> BurstDuration (s_temp ?s1 ! s_current ?s1) < 1" using cond by blast
      then have b1: "1 \<le> BurstDuration (acc_temp s ?c)"
        using len c lp by (simp add: acc_current acc_temp_nth)
      then have "\<not> (\<exists>k < length (s_pd s). acc_fin s k)"
        by (auto simp: acc_fin_def acc_temp_def)
      then have "\<not> snd (sjf_account s)" using len by (simp add: acc_swapped)
      then have "s_current ?t = ?c"
        using False len by (auto simp: sjf_tick_eq switch_current sel_swapped acc_current)
      then show False using b' b1 c len lp by (simp add: tick_temp_nth)
    qed
  qed
  \<comment> \<open>a tick either does work or happens no later than the last arrival\<close>
  from more obtain k where k: "k < ?n" and ek: "exit (s_pd s ! k) = 0"
    using lp by (auto simp: noMoreProcesses_iff in_set_conv_nth)
  have prog: "sjf_work ?t < sjf_work s \<or> s_time s \<le> max_arrival processes"
  proof (cases "0 < BurstDuration (s_temp s ! ?c)")
    case True
    show ?thesis
    proof (cases "ArrivalTime (s_temp s ! ?c) < s_time s")
      case a: True
      from work_tick_less[OF len _ True a] c lp show ?thesis by simp
    next
      case False
      then have "s_time s \<le> ArrivalTime (processes ! ?c)" using e[OF c] by simp
      also have "\<dots> \<le> max_arrival processes" using c by (simp add: max_arrival_ge)
      finally show ?thesis by simp
    qed
  next
    case False
    then have "s_time s \<le> ArrivalTime (processes ! k)" using J[OF _ k ek] by simp
    also have "\<dots> \<le> max_arrival processes" using k by (simp add: max_arrival_ge)
    finally show ?thesis by simp
  qed
  have wb': "int (sjf_work ?t) \<le> total_burst processes" using wle wb by simp
  have K': "s_time ?t + int (sjf_work ?t) \<le> max_arrival processes + 1 + total_burst processes"
    using prog wle wb' K time' by auto
  have rg': "waitingTime (s_pd ?t ! i) \<le> s_time ?t
           \<and> 0 \<le> exit (s_pd ?t ! i) \<and> exit (s_pd ?t ! i) \<le> s_time ?t" if i: "i < ?n" for i
    using rg[OF i] i len lp t time' by (auto simp: tick_pd_nth acc_pd_def)
  show ?thesis
    unfolding sjf_paced_def using J' wb' K' rg' by blast
qed

lemma sjf_loop_bounded:
  assumes ne: "processes \<noteq> []"
    and pos: "\<forall>p \<in> set processes. 0 \<le> ArrivalTime p \<and> 0 < BurstDuration p"
    and cond: "\<And>s i. BurstDuration (s_temp s ! s_current s) < 1 \<Longrightarrow> cond s i"
  shows "\<exists>s. sjf_loop cond processes (sjf_init processes) = Some s
           \<and> sjf_basic processes s \<and> sjf_paced processes s \<and> sjf_live processes s
           \<and> noMoreProcesses (s_pd s)"
proof -
  from sjf_loop_returns[of processes cond, OF ne pos cond]
  obtain s where s: "sjf_loop cond processes (sjf_init processes) = Some s" by blast
  let ?I = "\<lambda>s. sjf_basic processes s \<and> sjf_paced processes s \<and> sjf_live processes s"
  have init: "?I (sjf_init processes)"
    by (simp add: sjf_basic_init sjf_paced_init[OF ne pos] sjf_live_init[OF ne pos])
  have step: "?I (sjf_tick cond processes s)" if "?I s" and "\<not> noMoreProcesses (s_pd s)" for s
    using that sjf_basic_tick[of processes s cond] sjf_live_tick[of processes s cond]
      sjf_paced_tick[of processes s cond, OF _ _ _ cond] by blast
  from sjf_loop_rule[OF s, where I = ?I, OF init step] s show ?thesis by blast
qed

section \<open>The clock of the round-robin loop\<close>

lemma sum_nth_update:
  assumes "i < length xs"
  shows "(\<Sum>j < length xs. (xs[i := v]) ! j) = (\<Sum>j < length xs. xs ! j) - xs ! i + (v::int)"
proof -
  have "(\<Sum>j < length xs. (xs[i := v]) ! j)
        = (\<Sum>j < length xs. xs ! j + (if j = i then v - xs ! i else 0))"
    using assms by (intro sum.cong) (auto simp: nth_list_update)
  also have "\<dots> = (\<Sum>j < length xs. xs ! j) + (\<Sum>j < length xs. if j = i then v - xs ! i else 0)"
    by (simp add: sum.distrib)
  also have "(\<Sum>j < length xs. if j = i then v - xs ! i else 0) = v - xs ! i"
    using assms by simp
  finally show ?thesis by simp
qed

lemma rr_paced_init:
  assumes "\<forall>p \<in> set processes. 0 < BurstDuration p"
  shows "rr_paced processes (rr_init processes)"
proof -
  have "(\<Sum>j < length processes. BurstDuration (processes ! j)) = total_burst processes"
    by (simp add: total_burst_def sum_list_sum_nth atLeast0LessThan)
  moreover have "\<forall>j < length processes. 0 < BurstDuration (processes ! j)"
    using assms by simp
  ultimately show ?thesis
    by (auto simp: rr_paced_def rr_init_def less_imp_le)
qed

lemma rr_paced_visit:
  assumes i: "i < length processes" and paced: "rr_paced processes s"
  shows "rr_paced processes (fst (rr_visit processes i (s, d)))"
proof (cases "0 < r_timeLeft s ! i")
  case False
  then show ?thesis using paced by (simp add: rr_visit_skip)
next
  case True
  let ?s' = "fst (rr_visit processes i (s, d))"
  let ?n = "length processes"
  let ?q = "if val < r_timeLeft s ! i then val else r_timeLeft s ! i"
  from paced have lt: "length (r_timeLeft s) = ?n" and lp: "length (r_processData s) = ?n"
    and nn: "\<And>j. j < ?n \<Longrightarrow> 0 \<le> r_timeLeft s ! j"
    and ct: "0 \<le> r_currentTime s"
    and sm: "r_currentTime s + (\<Sum>j < ?n. r_timeLeft s ! j) = total_burst processes"
    and gb: "\<And>x. x \<in> set (r_gantt s) \<Longrightarrow>
               - val \<le> Start x \<and> Start x \<le> Stop x \<and> Stop x \<le> r_currentTime s"
    and fin: "\<And>j. j < ?n \<Longrightarrow> r_timeLeft s ! j = 0 \<Longrightarrow>
               turnaroundTime (r_processData s ! j) + ArrivalTime (processes ! j) \<le> r_currentTime s"
    by (simp_all add: rr_paced_def)
  have q: "0 < ?q" using True by (simp add: val_def)
  have ct': "r_currentTime ?s' = r_currentTime s + ?q"
    using True by (simp add: rr_visit_currentTime)
  have tl': "r_timeLeft ?s' = (r_timeLeft s)[i := r_timeLeft s ! i - ?q]"
    using True by (simp add: rr_visit_timeLeft)
  have nn': "0 \<le> r_timeLeft ?s' ! j" if j: "j < ?n" for j
    using nn[OF j] nn[OF i] i lt unfolding tl' by (cases "j = i") (simp_all add: val_def)
  have "(\<Sum>j < ?n. r_timeLeft ?s' ! j) = (\<Sum>j < ?n. r_timeLeft s ! j) - ?q"
    unfolding tl' using sum_nth_update[of i "r_timeLeft s" "r_timeLeft s ! i - ?q"] i lt by simp
  then have sm': "r_currentTime ?s' + (\<Sum>j < ?n. r_timeLeft ?s' ! j) = total_burst processes"
    using sm ct' by simp
  have gb': "\<forall>x \<in> set (r_gantt ?s'). - val \<le> Start x \<and> Start x \<le> Stop x \<and> Stop x \<le> r_currentTime ?s'"
  proof
    fix x assume x: "x \<in> set (r_gantt ?s')"
    show "- val \<le> Start x \<and> Start x \<le> Stop x \<and> Stop x \<le> r_currentTime ?s'"
    proof (cases "x \<in> set (r_gantt s)")
      case old: True
      from gb[OF old] ct' q show ?thesis by simp
    next
      case False
      with x have "x = \<lparr>PID = ProcessID (processes ! (i - 1)),
          Start = r_currentTime ?s' - val, Stop = r_currentTime ?s'\<rparr>"
        by (auto simp: rr_visit_gantt[OF True] split: if_splits)
      then show ?thesis using ct ct' q by (simp add: val_def)
    qed
  qed
  have fin': "turnaroundTime (r_processData ?s' ! j) + ArrivalTime (processes ! j) \<le> r_currentTime ?s'"
    if j: "j < ?n" and z: "r_timeLeft ?s' ! j = 0" for j
  proof (cases "j = i")
    case eq: True
    with z i lt have "\<not> val < r_timeLeft s ! i" unfolding tl' by auto
    then show ?thesis using True eq i lp ct'
      by (simp add: rr_visit_processData)
  next
    case ne: False
    then have "r_timeLeft s ! j = 0" using z unfolding tl' by simp
    from fin[OF j this] show ?thesis using True ne ct' q
      by (auto simp: rr_visit_processData val_def)
  qed
  show ?thesis
    unfolding rr_paced_def
    using lt lp nn' sm' gb' fin' ct ct' q True
    by (simp add: rr_visit_length rr_visit_processData)
qed

lemma rr_loop_paced:
  assumes run: "rr_loop processes (rr_init processes) = Some s"
    and pos: "\<forall>p \<in> set processes. 0 < BurstDuration p"
  shows "rr_paced processes s \<and> (\<forall>j < length processes. r_timeLeft s ! j = 0)
         \<and> r_currentTime s = total_burst processes"
proof -
  have step: "rr_paced processes (fst (rr_sweep processes s))" if "rr_paced processes s" for s
    by (rule rr_sweep_preserves[where I = "rr_paced processes", OF that]) (rule rr_paced_visit)
  from rr_loop_rule[OF run, where I = "rr_paced processes", OF rr_paced_init[OF pos] step]
  obtain s0 where p0: "rr_paced processes s0" and sw: "rr_sweep processes s0 = (s, True)" by blast
  from p0 have "length (r_timeLeft s0) = length processes" by (simp add: rr_paced_def)
  from rr_sweep_upto[OF this] sw have eq: "s = s0"
    and le: "\<forall>i < length processes. r_timeLeft s0 ! i \<le> 0"
    by (simp_all add: sweep_upto_def)
  from p0 le have z: "\<forall>j < length processes. r_timeLeft s0 ! j = 0"
    by (auto simp: rr_paced_def intro: antisym)
  then have "(\<Sum>j < length processes. r_timeLeft s0 ! j) = 0" by simp
  with p0 have "r_currentTime s0 = total_burst processes" by (simp add: rr_paced_def)
  with p0 z eq show ?thesis by simp
qed

section \<open>What the schedulers return on inputs within the int64 budget\<close>

lemma bounded_input_pos:
  "bounded_input processes \<Longrightarrow> \<forall>p \<in> set processes. 0 \<le> ArrivalTime p \<and> 0 < BurstDuration p"
  by (auto simp: bounded_input_def list_all_iff)

lemma bounded_input_limit:
  "bounded_input processes \<Longrightarrow> max_arrival processes + total_burst processes + 1 < 2 ^ 63"
  by (simp add: bounded_input_def)

lemma total_burst_nonneg:
  "\<forall>p \<in> set processes. 0 \<le> BurstDuration p \<Longrightarrow> 0 \<le> total_burst processes"
  unfolding total_burst_def by (rule sum_list_nonneg) auto

lemma sjf_run_bounded:
  assumes ne: "processes \<noteq> []" and bd: "bounded_input processes"
    and cond: "\<And>s i. BurstDuration (s_temp s ! s_current s) < 1 \<Longrightarrow> cond s i"
  shows "\<exists>r s. sjf_run cond processes = Some r
           \<and> sjf_loop cond processes (sjf_init processes) = Some s
           \<and> noMoreProcesses (s_pd s)
           \<and> 0 \<le> s_time s \<and> s_time s \<le> max_arrival processes + total_burst processes + 1
           \<and> list_all (\<lambda>x. 0 \<le> row_wait x \<and> row_wait x < 2 ^ 63) (out_schedule r)
           \<and> list_all (\<lambda>x. 0 < row_exit x \<and> row_exit x < 2 ^ 63) (out_schedule r)
           \<and> gantt_sorted (out_gantt r) \<and> gantt_disjoint (out_gantt r)
           \<and> list_all (\<lambda>x. 0 \<le> Start x \<and> Stop x < 2 ^ 63) (out_gantt r)"
proof -
  from sjf_loop_bounded[of processes cond, OF ne bounded_input_pos[OF bd] cond]
  obtain s where s: "sjf_loop cond processes (sjf_init processes) = Some s"
    and b: "sjf_basic processes s" and p: "sjf_paced processes s" and l: "sjf_live processes s"
    and n: "noMoreProcesses (s_pd s)" by blast
  let ?r = "sjf_report processes s"
  let ?B = "max_arrival processes + total_burst processes + 1"
  have r: "sjf_run cond processes = Some ?r" using s by (simp add: sjf_run_def)
  from b have len: "length (s_pd s) = length processes"
    and w0: "\<And>i. i < length processes \<Longrightarrow> 0 \<le> waitingTime (s_pd s ! i)"
    and ch: "chained 0 (s_gantt s) (s_start s)" and st: "s_start s \<le> s_time s"
    by (simp_all add: sjf_basic_def)
  from l have t0: "0 \<le> s_time s" by (simp add: sjf_live_def)
  from p have "s_time s + int (sjf_work s) \<le> max_arrival processes + 1 + total_burst processes"
    by (simp add: sjf_paced_def)
  then have tB: "s_time s \<le> ?B" by simp
  from p have rg: "\<And>i. i < length processes \<Longrightarrow> waitingTime (s_pd s ! i) \<le> s_time s
           \<and> 0 \<le> exit (s_pd s ! i) \<and> exit (s_pd s ! i) \<le> s_time s"
    by (simp add: sjf_paced_def)
  have lim: "?B < 2 ^ 63" by (rule bounded_input_limit[OF bd])
  have ex: "\<And>i. i < length processes \<Longrightarrow> exit (s_pd s ! i) \<noteq> 0"
    using n len by (simp add: noMoreProcesses_iff)
  have wait: "list_all (\<lambda>x. 0 \<le> row_wait x \<and> row_wait x < 2 ^ 63) (out_schedule ?r)"
    using w0 rg tB lim len by (force simp: sjf_report_schedule list_all_iff sjf_row_def)
  have exit: "list_all (\<lambda>x. 0 < row_exit x \<and> row_exit x < 2 ^ 63) (out_schedule ?r)"
    using ex rg tB lim len by (force simp: sjf_report_schedule list_all_iff sjf_row_def)
  from chained_bounds[OF ch] st tB lim
  have gb: "list_all (\<lambda>x. 0 \<le> Start x \<and> Stop x < 2 ^ 63) (out_gantt ?r)"
    by (force simp: sjf_report_gantt list_all_iff)
  have gs: "gantt_sorted (out_gantt ?r)" "gantt_disjoint (out_gantt ?r)"
    unfolding sjf_report_gantt
    by (rule chained_gantt_sorted[OF ch], rule chained_gantt_disjoint[OF ch])
  from r s n t0 tB wait exit gs gb show ?thesis by blast
qed





lemma fcfs_bounded_gantt:
  assumes bd: "bounded_input ps" and later: "\<forall>p \<in> set (tl ps). 0 < ArrivalTime p"
  shows "gantt_sorted (out_gantt (FCFSSchedule ps)) \<and> gantt_disjoint (out_gantt (FCFSSchedule ps))
         \<and> list_all (\<lambda>x. 0 \<le> Start x \<and> Stop x < 2 ^ 63) (out_gantt (FCFSSchedule ps))"
proof -
  from bounded_input_pos[OF bd]
  have pos: "\<forall>p \<in> set ps. 0 \<le> ArrivalTime p \<and> 0 \<le> BurstDuration p" by (auto simp: less_imp_le)
  have lim: "total_burst ps < 2 ^ 63"
    using bounded_input_limit[OF bd] max_arrival_nonneg[of ps] by simp
  from fcfs_chain[OF pos later]
  have c: "chained 0 (f_gantt (foldl fcfs_step fcfs_init ps)) (total_burst ps)"
    by (simp add: fcfs_fold_serviceTime fcfs_init_def total_burst_def)
  from chained_bounds[OF c] lim
  have "list_all (\<lambda>x. 0 \<le> Start x \<and> Stop x < 2 ^ 63) (out_gantt (FCFSSchedule ps))"
    by (force simp: fcfs_out_gantt list_all_iff)
  then show ?thesis
    unfolding fcfs_out_gantt using chained_gantt_sorted[OF c] chained_gantt_disjoint[OF c] by simp
qed

lemma total_burst_sortSlice: "total_burst (sortSlice ps) = total_burst ps"
proof -
  have "sum_mset (mset (map BurstDuration (sortSlice ps))) = sum_mset (mset (map BurstDuration ps))"
    by (simp add: sortSlice_def)
  then show ?thesis unfolding total_burst_def by (simp only: sum_mset_sum_list)
qed

lemma rr_bounded:
  assumes bd: "bounded_input ps"
  shows "\<exists>r s. RRSchedule ps = Some r
           \<and> rr_loop (sortSlice ps) (rr_init (sortSlice ps)) = Some s
           \<and> list_all (\<lambda>x. x = 0) (r_timeLeft s)
           \<and> r_currentTime s = total_burst ps
           \<and> list_all (\<lambda>x. 0 \<le> row_wait x + row_arrival x \<and> int64 (row_wait x)) (out_schedule r)
           \<and> gantt_sorted (out_gantt r)
           \<and> list_all (\<lambda>x. int64 (Start x) \<and> int64 (Stop x)) (out_gantt r)"
proof -
  let ?ps = "sortSlice ps"
  let ?n = "length ?ps"
  from rr_loop_returns[of ?ps] obtain s where s: "rr_loop ?ps (rr_init ?ps) = Some s" by blast
  let ?r = "rr_report ?ps s"
  have r: "RRSchedule ps = Some ?r" using s by (simp add: RRSchedule_def Let_def)
  have set: "set ?ps = set ps" by (simp add: sortSlice_def)
  from bounded_input_pos[OF bd] set
  have pos: "\<forall>p \<in> set ?ps. 0 \<le> ArrivalTime p \<and> 0 < BurstDuration p" by simp
  then have pb: "\<forall>p \<in> set ?ps. 0 < BurstDuration p" by blast
  have arr: "0 \<le> ArrivalTime (?ps ! j) \<and> ArrivalTime (?ps ! j) \<le> max_arrival ps
             \<and> 0 < BurstDuration (?ps ! j)" if "j < ?n" for j
  proof -
    from that have "?ps ! j \<in> set ps" using set nth_mem by blast
    then show ?thesis using bounded_input_pos[OF bd] max_arrival_ge by blast
  qed
  have lim: "max_arrival ps + total_burst ps + 1 < 2 ^ 63" by (rule bounded_input_limit[OF bd])
  have tb: "0 \<le> total_burst ps"
    using bounded_input_pos[OF bd] by (intro total_burst_nonneg) (auto simp: less_imp_le)
  from rr_loop_paced[OF s pb] have p: "rr_paced ?ps s"
    and z: "\<And>j. j < ?n \<Longrightarrow> r_timeLeft s ! j = 0"
    and ct: "r_currentTime s = total_burst ps"
    by (simp_all add: total_burst_sortSlice)
  from rr_loop_final[OF s] have f: "rr_fine ?ps s" by simp
  from p have lt: "length (r_timeLeft s) = ?n"
    and gb: "\<And>x. x \<in> set (r_gantt s) \<Longrightarrow>
               - val \<le> Start x \<and> Start x \<le> Stop x \<and> Stop x \<le> r_currentTime s"
    and fin: "\<And>j. j < ?n \<Longrightarrow> r_timeLeft s ! j = 0 \<Longrightarrow>
               turnaroundTime (r_processData s ! j) + ArrivalTime (?ps ! j) \<le> r_currentTime s"
    by (simp_all add: rr_paced_def)
  from f have lo: "\<And>j. j < ?n \<Longrightarrow> r_timeLeft s ! j \<le> 0 \<Longrightarrow> 0 < BurstDuration (?ps ! j) \<Longrightarrow>
                BurstDuration (?ps ! j)
                  \<le> turnaroundTime (r_processData s ! j) + ArrivalTime (?ps ! j)"
    by (simp add: rr_fine_def)
  have zero: "list_all (\<lambda>x. x = 0) (r_timeLeft s)"
    using z lt by (simp add: list_all_length)
  have row: "0 \<le> row_wait (rr_row ?ps (r_processData s) j) + row_arrival (rr_row ?ps (r_processData s) j)
             \<and> int64 (row_wait (rr_row ?ps (r_processData s) j))" if j: "j < ?n" for j
  proof -
    from lo[OF j] z[OF j] arr[OF j]
    have a: "BurstDuration (?ps ! j) \<le> turnaroundTime (r_processData s ! j) + ArrivalTime (?ps ! j)"
      by simp
    from fin[OF j z[OF j]] ct
    have b: "turnaroundTime (r_processData s ! j) + ArrivalTime (?ps ! j) \<le> total_burst ps" by simp
    from a b arr[OF j] lim show ?thesis
      by (simp add: rr_row_def Let_def int64_def)
  qed
  have rows: "list_all (\<lambda>x. 0 \<le> row_wait x + row_arrival x \<and> int64 (row_wait x)) (out_schedule ?r)"
    using row by (simp add: rr_report_schedule list_all_iff)
  have gs: "gantt_sorted (out_gantt ?r)"
    using rr_props(4)[OF r] .
  have gr: "list_all (\<lambda>x. int64 (Start x) \<and> int64 (Stop x)) (out_gantt ?r)"
  proof -
    have old: "int64 (Start x) \<and> int64 (Stop x)" if "x \<in> set (r_gantt s)" for x
      using gb[OF that] ct lim tb max_arrival_nonneg[of ps] by (simp add: int64_def val_def)
    have last: "int64 (r_currentTime s - r_timeLeft s ! (?n - 1)) \<and> int64 (r_currentTime s)" if "0 < ?n"
      using z[of "?n - 1"] that ct lim tb max_arrival_nonneg[of ps] by (simp add: int64_def)
    show ?thesis using old last by (auto simp: rr_report_gantt list_all_iff)
  qed
  from r s zero ct rows gs gr show ?thesis by blast
qed

section \<open>A burst that is not positive\<close>





section \<open>The two shortest-job simulations on runs without ties, whether they end or not\<close>

lemma sjf_avoids_step:
  assumes "sjf_avoids current_tie sjf_cond processes s \<noteq> Some False"
    and "\<not> noMoreProcesses (s_pd s)"
  shows "\<not> current_tie processes (fst (sjf_account s))"
    and "sjf_avoids current_tie sjf_cond processes (sjf_tick sjf_cond processes s) \<noteq> Some False"
proof -
  have eq: "sjf_avoids current_tie sjf_cond processes s =
     (if current_tie processes (fst (sjf_account s)) then Some False
      else sjf_avoids current_tie sjf_cond processes (sjf_tick sjf_cond processes s))"
    using assms(2) by (subst sjf_avoids.simps) simp
  show "\<not> current_tie processes (fst (sjf_account s))"
    using assms(1) eq by (auto split: if_splits)
  then show "sjf_avoids current_tie sjf_cond processes (sjf_tick sjf_cond processes s) \<noteq> Some False"
    using assms(1) eq by simp
qed

lemma sjf_loop_unfold:
  "\<not> noMoreProcesses (s_pd s) \<Longrightarrow>
   sjf_loop cond processes s = sjf_loop cond processes (sjf_tick cond processes s)"
  by (subst sjf_loop.simps) simp

lemma sjf_to_sjfp:
  assumes "sjf_loop sjf_cond processes s = Some t"
    and "sjf_avoids current_tie sjf_cond processes s \<noteq> Some False"
  shows "sjf_loop sjfp_cond processes s = Some t"
proof -
  have "c = sjf_cond \<longrightarrow> sjf_avoids current_tie sjf_cond p s0 \<noteq> Some False \<longrightarrow>
          sjf_loop sjfp_cond p s0 = Some y"
    if "sjf_loop c p s0 = Some y" for c p s0 y
  proof (rule sjf_loop.raw_induct[where P = "\<lambda>c p s y. c = sjf_cond \<longrightarrow>
          sjf_avoids current_tie sjf_cond p s \<noteq> Some False \<longrightarrow> sjf_loop sjfp_cond p s = Some y",
        OF _ that], intro impI)
    fix f c' p' s1 y1
    assume IH: "\<And>c p s y. f c p s = Some y \<Longrightarrow> c = sjf_cond \<longrightarrow>
          sjf_avoids current_tie sjf_cond p s \<noteq> Some False \<longrightarrow> sjf_loop sjfp_cond p s = Some y"
      and body: "(if noMoreProcesses (s_pd s1) then Some s1
                  else f c' p' (sjf_tick c' p' s1)) = Some y1"
      and c: "c' = sjf_cond"
      and av: "sjf_avoids current_tie sjf_cond p' s1 \<noteq> Some False"
    show "sjf_loop sjfp_cond p' s1 = Some y1"
    proof (cases "noMoreProcesses (s_pd s1)")
      case True
      then show ?thesis using body by (simp add: sjf_loop.simps)
    next
      case False
      with body c have rec: "f sjf_cond p' (sjf_tick sjf_cond p' s1) = Some y1" by simp
      from sjf_avoids_step[OF av False]
      have nt: "\<not> current_tie p' (fst (sjf_account s1))"
        and av': "sjf_avoids current_tie sjf_cond p' (sjf_tick sjf_cond p' s1) \<noteq> Some False"
        by simp_all
      from IH[OF rec] av'
      have "sjf_loop sjfp_cond p' (sjf_tick sjf_cond p' s1) = Some y1" by simp
      then show ?thesis
        by (simp add: sjf_loop_unfold[OF False] sjf_tick_agree[OF nt])
    qed
  qed
  then show ?thesis using assms by blast
qed

lemma sjfp_to_sjf:
  assumes "sjf_loop sjfp_cond processes s = Some t"
    and "sjf_avoids current_tie sjf_cond processes s \<noteq> Some False"
  shows "sjf_loop sjf_cond processes s = Some t"
proof -
  have "c = sjfp_cond \<longrightarrow> sjf_avoids current_tie sjf_cond p s0 \<noteq> Some False \<longrightarrow>
          sjf_loop sjf_cond p s0 = Some y"
    if "sjf_loop c p s0 = Some y" for c p s0 y
  proof (rule sjf_loop.raw_induct[where P = "\<lambda>c p s y. c = sjfp_cond \<longrightarrow>
          sjf_avoids current_tie sjf_cond p s \<noteq> Some False \<longrightarrow> sjf_loop sjf_cond p s = Some y",
        OF _ that], intro impI)
    fix f c' p' s1 y1
    assume IH: "\<And>c p s y. f c p s = Some y \<Longrightarrow> c = sjfp_cond \<longrightarrow>
          sjf_avoids current_tie sjf_cond p s \<noteq> Some False \<longrightarrow> sjf_loop sjf_cond p s = Some y"
      and body: "(if noMoreProcesses (s_pd s1) then Some s1
                  else f c' p' (sjf_tick c' p' s1)) = Some y1"
      and c: "c' = sjfp_cond"
      and av: "sjf_avoids current_tie sjf_cond p' s1 \<noteq> Some False"
    show "sjf_loop sjf_cond p' s1 = Some y1"
    proof (cases "noMoreProcesses (s_pd s1)")
      case True
      then show ?thesis using body by (simp add: sjf_loop.simps)
    next
      case False
      from sjf_avoids_step[OF av False]
      have nt: "\<not> current_tie p' (fst (sjf_account s1))"
        and av': "sjf_avoids current_tie sjf_cond p' (sjf_tick sjf_cond p' s1) \<noteq> Some False"
        by simp_all
      from False body c have "f sjfp_cond p' (sjf_tick sjfp_cond p' s1) = Some y1" by simp
      then have rec: "f sjfp_cond p' (sjf_tick sjf_cond p' s1) = Some y1"
        by (simp add: sjf_tick_agree[OF nt])
      from IH[OF rec] av'
      have "sjf_loop sjf_cond p' (sjf_tick sjf_cond p' s1) = Some y1" by simp
      then show ?thesis by (simp add: sjf_loop_unfold[OF False])
    qed
  qed
  then show ?thesis using assms by blast
qed

lemma sjf_loops_equal:
  assumes "sjf_avoids current_tie sjf_cond processes s \<noteq> Some False"
  shows "sjf_loop sjfp_cond processes s = sjf_loop sjf_cond processes s"
proof (cases "sjf_loop sjf_cond processes s")
  case (Some t)
  from sjf_to_sjfp[OF Some assms] Some show ?thesis by simp
next
  case None
  show ?thesis
  proof (cases "sjf_loop sjfp_cond processes s")
    case n: None
    with None show ?thesis by simp
  next
    case (Some t)
    from sjfp_to_sjf[OF Some assms] None show ?thesis by simp
  qed
qed

section \<open>A single process never ties\<close>

lemma current_tie_single: "length processes = 1 \<Longrightarrow> s_current s = 0 \<Longrightarrow> \<not> current_tie processes s"
  by (simp add: current_tie_def)

lemma sjf_avoids_single:
  assumes "length processes = 1" and "length (s_temp s) = length (s_pd s)" and "s_current s = 0"
  shows "sjf_avoids current_tie cond processes s \<noteq> Some False"
proof
  assume a: "sjf_avoids current_tie cond processes s = Some False"
  have "b = current_tie \<longrightarrow> length p = 1 \<longrightarrow> length (s_temp s0) = length (s_pd s0)
          \<longrightarrow> s_current s0 = 0 \<longrightarrow> y = True"
    if "sjf_avoids b c p s0 = Some y" for b c p s0 y
  proof (rule sjf_avoids.raw_induct[where P = "\<lambda>b c p s y. b = current_tie \<longrightarrow> length p = 1
          \<longrightarrow> length (s_temp s) = length (s_pd s) \<longrightarrow> s_current s = 0 \<longrightarrow> y = True",
        OF _ that], intro impI)
    fix f b' c' p' s1 y1
    assume IH: "\<And>b c p s y. f b c p s = Some y \<Longrightarrow> b = current_tie \<longrightarrow> length p = 1
          \<longrightarrow> length (s_temp s) = length (s_pd s) \<longrightarrow> s_current s = 0 \<longrightarrow> y = True"
      and body: "(if noMoreProcesses (s_pd s1) then Some True
                  else if b' p' (fst (sjf_account s1)) then Some False
                  else f b' c' p' (sjf_tick c' p' s1)) = Some y1"
      and b: "b' = current_tie" and one: "length p' = 1"
      and len: "length (s_temp s1) = length (s_pd s1)" and cur: "s_current s1 = 0"
    have nt: "\<not> current_tie p' (fst (sjf_account s1))"
      using current_tie_single[OF one] cur len by (simp add: acc_current)
    show "y1 = True"
    proof (cases "noMoreProcesses (s_pd s1)")
      case True
      then show ?thesis using body by simp
    next
      case False
      with body b nt have rec: "f current_tie c' p' (sjf_tick c' p' s1) = Some y1" by simp
      have "s_current (sjf_tick c' p' s1) = 0"
        using tick_current_less[OF len, of p' c'] cur one by simp
      moreover have "length (s_temp (sjf_tick c' p' s1)) = length (s_pd (sjf_tick c' p' s1))"
        using len by (simp add: tick_length_temp tick_length_pd)
      ultimately show ?thesis using IH[OF rec] one by simp
    qed
  qed
  from this[OF a] assms show False by simp
qed
section \<open>FCFS: the concrete scenario\<close>

text \<open>
  C1 (as amended). For P1(arrival 0, burst 5), P2(arrival 1, burst 3), P3(arrival 2,
  burst 1), FCFSSchedule serves the processes in input order (the Gantt slices and the rows
  carry the ids 1, 2, 3 in that order); the waiting times are 0, 4 and 6 (P3 starts at the
  cumulative burst 8 and arrived at 2), and the average waiting time is 10/3.
\<close>

theorem fcfs_scenario:
  "map PID (out_gantt (FCFSSchedule [proc 1 0 5 0, proc 2 1 3 0, proc 3 2 1 0])) = [1, 2, 3]
   \<and> map row_id (out_schedule (FCFSSchedule [proc 1 0 5 0, proc 2 1 3 0, proc 3 2 1 0])) = [1, 2, 3]
   \<and> map row_wait (out_schedule (FCFSSchedule [proc 1 0 5 0, proc 2 1 3 0, proc 3 2 1 0])) = [0, 4, 6]
   \<and> out_aveWait (FCFSSchedule [proc 1 0 5 0, proc 2 1 3 0, proc 3 2 1 0]) = Some (10 / 3)"
  by (simp add: FCFSSchedule_def fcfs_step_def fcfs_init_def proc_def fdiv_def Let_def)

text \<open>
  The scenario as the specification words it (waiting time 7 for P3, average 11/3) is not
  what FCFSSchedule computes.
\<close>

theorem fcfs_scenario_counterexample:
  "\<not> (map row_wait (out_schedule (FCFSSchedule [proc 1 0 5 0, proc 2 1 3 0, proc 3 2 1 0])) = [0, 4, 7]
      \<and> out_aveWait (FCFSSchedule [proc 1 0 5 0, proc 2 1 3 0, proc 3 2 1 0]) = Some (11 / 3))"
  by (simp add: FCFSSchedule_def fcfs_step_def fcfs_init_def proc_def fdiv_def Let_def)


section \<open>FCFS: the waiting-time rule\<close>

text \<open>
  C2 (as amended). In FCFSSchedule, a process whose arrival time is strictly greater than 0
  is assigned the waiting time serviceTime - arrival, where serviceTime is the cumulative
  burst of all earlier processes; the difference is not clamped at 0. A process whose
  arrival time is not greater than 0 keeps the waiting time of the previous iteration
  (0 for the first process).
\<close>

theorem fcfs_waiting_rule:
  assumes "i < length ps"
  shows "row_wait (out_schedule (FCFSSchedule ps) ! i) =
     (if ArrivalTime (ps ! i) > 0
      then sum_list (map BurstDuration (take i ps)) - ArrivalTime (ps ! i)
      else if i = 0 then 0
      else row_wait (out_schedule (FCFSSchedule ps) ! (i - 1)))"
  unfolding fcfs_out_schedule by (rule fcfs_wait_nth[OF assms])

theorem fcfs_waiting_rule_witness:
  "(1::nat) < length [proc 1 0 5 0, proc 2 1 3 0] \<and>
   row_wait (out_schedule (FCFSSchedule [proc 1 0 5 0, proc 2 1 3 0]) ! 1) = 4"
  using fcfs_waiting_rule[of 1 "[proc 1 0 5 0, proc 2 1 3 0]"]
  by (simp add: proc_def)

text \<open>
  A single process that arrives at 5 with burst 1 is assigned the waiting time -5, where the
  clamped formula of the specification gives 0.
\<close>

theorem fcfs_waiting_clamp_counterexample:
  "ArrivalTime ([proc 1 5 1 0] ! 0) > 0 \<and>
   row_wait (out_schedule (FCFSSchedule [proc 1 5 1 0]) ! 0) = -5 \<and>
   row_wait (out_schedule (FCFSSchedule [proc 1 5 1 0]) ! 0) \<noteq>
     max 0 (sum_list (map BurstDuration (take 0 [proc 1 5 1 0])) - ArrivalTime ([proc 1 5 1 0] ! 0))"
  by (simp add: FCFSSchedule_def fcfs_step_def fcfs_init_def proc_def Let_def)


section \<open>Waiting times are not all non-negative\<close>




section \<open>The PID of a slice of the shortest-job simulations\<close>

text \<open>
  C4. The claim is that every slice of SJFSchedule and SJFPrioritySchedule carries the
  ProcessID of the process at the current index. The code writes the current index plus 1
  instead (lines 201 and 284): for the single process of id 7, arrival 0 and burst 1, the
  one slice that both functions emit carries the PID 1.
\<close>

theorem sjf_slice_pid_is_index:
  "map_option (map PID \<circ> out_gantt) (SJFSchedule [proc 7 0 1 0]) = Some [1]
   \<and> map_option (map PID \<circ> out_gantt) (SJFPrioritySchedule [proc 7 0 1 0]) = Some [1]
   \<and> map_option (map row_id \<circ> out_schedule) (SJFSchedule [proc 7 0 1 0]) = Some [7]
   \<and> map ProcessID [proc 7 0 1 0] = [7]"
  by code_simp

section \<open>The order of the Gantt slices\<close>

text \<open>
  C5 (as amended). For every non-empty input process list within the int64 budget (all
  bursts positive, all arrival times non-negative, and the largest arrival time plus the sum
  of the bursts plus 1 below \<open>2^63\<close>), SJFSchedule and SJFPrioritySchedule return Gantt
  slices that are sorted by start time and of which no two overlap; RRSchedule returns Gantt
  slices that are sorted by start time; and the slices of FCFSSchedule are sorted by start
  time and do not overlap when every process but the first has a positive arrival time. All
  the start and stop times lie within the int64 range.
\<close>

theorem gantt_order:
  assumes "ps \<noteq> []" and "bounded_input ps"
  shows "(\<exists>r. SJFSchedule ps = Some r \<and> gantt_sorted (out_gantt r) \<and> gantt_disjoint (out_gantt r)
            \<and> list_all (\<lambda>x. 0 \<le> Start x \<and> Stop x < 2 ^ 63) (out_gantt r))
       \<and> (\<exists>r. SJFPrioritySchedule ps = Some r \<and> gantt_sorted (out_gantt r)
            \<and> gantt_disjoint (out_gantt r)
            \<and> list_all (\<lambda>x. 0 \<le> Start x \<and> Stop x < 2 ^ 63) (out_gantt r))
       \<and> (\<exists>r. RRSchedule ps = Some r \<and> gantt_sorted (out_gantt r)
            \<and> list_all (\<lambda>x. int64 (Start x) \<and> int64 (Stop x)) (out_gantt r))
       \<and> ((\<forall>p \<in> set (tl ps). 0 < ArrivalTime p)
           \<longrightarrow> gantt_sorted (out_gantt (FCFSSchedule ps))
               \<and> gantt_disjoint (out_gantt (FCFSSchedule ps))
               \<and> list_all (\<lambda>x. 0 \<le> Start x \<and> Stop x < 2 ^ 63) (out_gantt (FCFSSchedule ps)))"
proof (intro conjI impI)
  from sjf_run_bounded[OF assms, of sjf_cond] sjf_cond_idle
  show "\<exists>r. SJFSchedule ps = Some r \<and> gantt_sorted (out_gantt r) \<and> gantt_disjoint (out_gantt r)
            \<and> list_all (\<lambda>x. 0 \<le> Start x \<and> Stop x < 2 ^ 63) (out_gantt r)"
    unfolding SJFSchedule_def by blast
  from sjf_run_bounded[OF assms, of sjfp_cond] sjfp_cond_idle
  show "\<exists>r. SJFPrioritySchedule ps = Some r \<and> gantt_sorted (out_gantt r)
            \<and> gantt_disjoint (out_gantt r)
            \<and> list_all (\<lambda>x. 0 \<le> Start x \<and> Stop x < 2 ^ 63) (out_gantt r)"
    unfolding SJFPrioritySchedule_def by blast
  from rr_bounded[OF assms(2)]
  show "\<exists>r. RRSchedule ps = Some r \<and> gantt_sorted (out_gantt r)
            \<and> list_all (\<lambda>x. int64 (Start x) \<and> int64 (Stop x)) (out_gantt r)"
    by blast
next
  assume later: "\<forall>p \<in> set (tl ps). 0 < ArrivalTime p"
  from fcfs_bounded_gantt[OF assms(2) later]
  show "gantt_sorted (out_gantt (FCFSSchedule ps))"
    "gantt_disjoint (out_gantt (FCFSSchedule ps))"
    "list_all (\<lambda>x. 0 \<le> Start x \<and> Stop x < 2 ^ 63) (out_gantt (FCFSSchedule ps))"
    by simp_all
qed

theorem gantt_order_witness:
  "[proc 1 0 5 0, proc 2 1 3 0, proc 3 2 1 0] \<noteq> []
   \<and> bounded_input [proc 1 0 5 0, proc 2 1 3 0, proc 3 2 1 0]
   \<and> gantt_sorted (out_gantt (the (SJFSchedule [proc 1 0 5 0, proc 2 1 3 0, proc 3 2 1 0])))
   \<and> gantt_disjoint (out_gantt (the (SJFSchedule [proc 1 0 5 0, proc 2 1 3 0, proc 3 2 1 0])))
   \<and> gantt_sorted (out_gantt (the (SJFPrioritySchedule [proc 1 0 5 0, proc 2 1 3 0, proc 3 2 1 0])))
   \<and> gantt_disjoint (out_gantt (the (SJFPrioritySchedule [proc 1 0 5 0, proc 2 1 3 0, proc 3 2 1 0])))
   \<and> gantt_sorted (out_gantt (the (RRSchedule [proc 1 0 5 0, proc 2 1 3 0, proc 3 2 1 0])))
   \<and> gantt_sorted (out_gantt (FCFSSchedule [proc 1 0 5 0, proc 2 1 3 0, proc 3 2 1 0]))
   \<and> gantt_disjoint (out_gantt (FCFSSchedule [proc 1 0 5 0, proc 2 1 3 0, proc 3 2 1 0]))"
proof -
  let ?ps = "[proc 1 0 5 0, proc 2 1 3 0, proc 3 2 1 0]"
  have ne: "?ps \<noteq> []" by simp
  have bd: "bounded_input ?ps"
    by (simp add: bounded_input_def max_arrival_def total_burst_def proc_def)
  have later: "\<forall>p \<in> set (tl ?ps). 0 < ArrivalTime p" by (simp add: proc_def)
  from gantt_order[OF ne bd] later bd show ?thesis by auto
qed

text \<open>
  Two processes that both arrive at 0 give FCFS slices from 0 to 5 and from 0 to 8, which
  overlap; a third process that arrives at 0 after one that arrived at 1 gives FCFS start
  times 0, 5, 4; three processes of burst 1 give round-robin slices from 0 to 2 and from
  1 to 3. The three lists are within the budget.
\<close>

theorem gantt_order_counterexample:
  "bounded_input [proc 1 0 5 0, proc 2 0 3 0]
   \<and> bounded_input [proc 1 0 5 0, proc 2 1 3 0, proc 3 0 1 0]
   \<and> bounded_input [proc 1 0 1 0, proc 2 0 1 0, proc 3 0 1 0]
   \<and> \<not> gantt_disjoint (out_gantt (FCFSSchedule [proc 1 0 5 0, proc 2 0 3 0]))
   \<and> \<not> gantt_sorted (out_gantt (FCFSSchedule [proc 1 0 5 0, proc 2 1 3 0, proc 3 0 1 0]))
   \<and> map_option (gantt_disjoint \<circ> out_gantt) (RRSchedule [proc 1 0 1 0, proc 2 0 1 0, proc 3 0 1 0])
       = Some False"
proof -
  have "bounded_input [proc 1 0 5 0, proc 2 0 3 0]
   \<and> bounded_input [proc 1 0 5 0, proc 2 1 3 0, proc 3 0 1 0]
   \<and> bounded_input [proc 1 0 1 0, proc 2 0 1 0, proc 3 0 1 0]"
    by (simp add: bounded_input_def max_arrival_def total_burst_def proc_def)
  moreover have "\<not> gantt_disjoint (out_gantt (FCFSSchedule [proc 1 0 5 0, proc 2 0 3 0]))
   \<and> \<not> gantt_sorted (out_gantt (FCFSSchedule [proc 1 0 5 0, proc 2 1 3 0, proc 3 0 1 0]))
   \<and> map_option (gantt_disjoint \<circ> out_gantt) (RRSchedule [proc 1 0 1 0, proc 2 0 1 0, proc 3 0 1 0])
       = Some False"
    by code_simp
  ultimately show ?thesis by simp
qed

section \<open>SJFPrioritySchedule against SJFSchedule\<close>

text \<open>
  C6 (as amended). The condition of the second scan of SJFPrioritySchedule is that of
  SJFSchedule with one more alternative: the remaining bursts of the candidate and of the
  process at the current index are equal and the candidate's priority is strictly greater.
  For every input process list on which, at no tick of the SJFSchedule simulation, a
  process that has arrived and is unfinished has the same remaining burst as the process at
  the current index (which itself need not have arrived), SJFPrioritySchedule produces
  exactly the same Gantt slices, per-process results and aggregate statistics as
  SJFSchedule, and does not return where SJFSchedule does not return.
\<close>

theorem priority_agrees_without_ties:
  "(sjfp_cond s i \<longleftrightarrow>
      sjf_cond s i
      \<or> (BurstDuration (s_temp s ! i) = BurstDuration (s_temp s ! s_current s)
         \<and> Priority (s_temp s ! i) > Priority (s_temp s ! s_current s)))
   \<and> (sjf_avoids current_tie sjf_cond ps (sjf_init ps) \<noteq> Some False \<longrightarrow>
        SJFPrioritySchedule ps = SJFSchedule ps)"
proof (intro conjI impI)
  show "sjfp_cond s i \<longleftrightarrow>
      sjf_cond s i
      \<or> (BurstDuration (s_temp s ! i) = BurstDuration (s_temp s ! s_current s)
         \<and> Priority (s_temp s ! i) > Priority (s_temp s ! s_current s))"
    by (auto simp: sjfp_cond_def sjf_cond_def)
next
  assume a: "sjf_avoids current_tie sjf_cond ps (sjf_init ps) \<noteq> Some False"
  from sjf_loops_equal[OF a]
  show "SJFPrioritySchedule ps = SJFSchedule ps"
    by (simp add: SJFPrioritySchedule_def SJFSchedule_def sjf_run_def)
qed

theorem priority_agrees_without_ties_witness:
  "sjf_avoids current_tie sjf_cond [proc 1 0 5 0, proc 2 1 3 2, proc 3 2 1 1]
     (sjf_init [proc 1 0 5 0, proc 2 1 3 2, proc 3 2 1 1]) \<noteq> Some False
   \<and> SJFPrioritySchedule [proc 1 0 5 0, proc 2 1 3 2, proc 3 2 1 1]
       = SJFSchedule [proc 1 0 5 0, proc 2 1 3 2, proc 3 2 1 1]
   \<and> SJFSchedule [proc 1 0 5 0, proc 2 1 3 2, proc 3 2 1 1] \<noteq> None
   \<and> sjf_avoids current_tie sjf_cond [proc 1 0 0 0] (sjf_init [proc 1 0 0 0]) \<noteq> Some False
   \<and> SJFPrioritySchedule [proc 1 0 0 0] = SJFSchedule [proc 1 0 0 0]
   \<and> SJFSchedule [proc 1 0 0 0] = None"
proof -
  have a: "sjf_avoids current_tie sjf_cond [proc 1 0 5 0, proc 2 1 3 2, proc 3 2 1 1]
     (sjf_init [proc 1 0 5 0, proc 2 1 3 2, proc 3 2 1 1]) \<noteq> Some False"
    by code_simp
  have n: "SJFSchedule [proc 1 0 5 0, proc 2 1 3 2, proc 3 2 1 1] \<noteq> None"
    by code_simp
  have b: "sjf_avoids current_tie sjf_cond [proc 1 0 0 0] (sjf_init [proc 1 0 0 0]) \<noteq> Some False"
    by (rule sjf_avoids_single) (simp_all add: sjf_init_def)
  have m: "SJFSchedule [proc 1 0 0 0] = None"
    by (simp add: SJFSchedule_def sjf_run_stuck)
  from priority_agrees_without_ties[of _ _ "[proc 1 0 5 0, proc 2 1 3 2, proc 3 2 1 1]"]
    priority_agrees_without_ties[of _ _ "[proc 1 0 0 0]"] a n b m
  show ?thesis by blast
qed

text \<open>
  Process 1 arrives at 10 with burst 3 and priority 0, process 2 at 0 with burst 1 and
  priority 0, process 3 at 0 with burst 3 and priority 1. In neither simulation do two
  arrived, unfinished processes ever have equal remaining bursts. At time 0 the current
  index is still that of process 1, which has not arrived: SJFPrioritySchedule lets process
  3 take over on the tie with it, SJFSchedule lets process 2 run first, and the waiting
  times differ.
\<close>

theorem priority_agrees_without_ties_counterexample:
  "sjf_avoids pair_tie sjf_cond [proc 1 10 3 0, proc 2 0 1 0, proc 3 0 3 1]
     (sjf_init [proc 1 10 3 0, proc 2 0 1 0, proc 3 0 3 1]) = Some True
   \<and> sjf_avoids pair_tie sjfp_cond [proc 1 10 3 0, proc 2 0 1 0, proc 3 0 3 1]
       (sjf_init [proc 1 10 3 0, proc 2 0 1 0, proc 3 0 3 1]) = Some True
   \<and> map_option (map row_wait \<circ> out_schedule)
       (SJFSchedule [proc 1 10 3 0, proc 2 0 1 0, proc 3 0 3 1]) = Some [0, 0, 1]
   \<and> map_option (map row_wait \<circ> out_schedule)
       (SJFPrioritySchedule [proc 1 10 3 0, proc 2 0 1 0, proc 3 0 3 1]) = Some [0, 1, 1]
   \<and> SJFPrioritySchedule [proc 1 10 3 0, proc 2 0 1 0, proc 3 0 3 1]
       \<noteq> SJFSchedule [proc 1 10 3 0, proc 2 0 1 0, proc 3 0 3 1]"
  by code_simp

section \<open>Termination of the three simulation loops\<close>




section \<open>The effect on the caller's process list\<close>

text \<open>
  C8. RRSchedule reorders the caller's process list in place by ascending arrival time:
  after the call the list is sorted by arrival time and holds the same processes, with
  all their fields. FCFSSchedule, SJFSchedule and SJFPrioritySchedule leave the list
  unchanged, in content and in order.
\<close>

theorem input_list_effect:
  "out_processes (FCFSSchedule ps) = ps
   \<and> (SJFSchedule ps = Some r1 \<longrightarrow> out_processes r1 = ps)
   \<and> (SJFPrioritySchedule ps = Some r2 \<longrightarrow> out_processes r2 = ps)
   \<and> (RRSchedule ps = Some r3 \<longrightarrow>
        sorted (map ArrivalTime (out_processes r3)) \<and> mset (out_processes r3) = mset ps)"
proof (intro conjI impI)
  show "out_processes (FCFSSchedule ps) = ps" by (simp add: FCFSSchedule_def Let_def)
next
  assume "SJFSchedule ps = Some r1"
  then show "out_processes r1 = ps" unfolding SJFSchedule_def by (rule sjf_run_props(7))
next
  assume "SJFPrioritySchedule ps = Some r2"
  then show "out_processes r2 = ps" unfolding SJFPrioritySchedule_def by (rule sjf_run_props(7))
next
  assume r: "RRSchedule ps = Some r3"
  show "sorted (map ArrivalTime (out_processes r3))"
    unfolding rr_props(5)[OF r] by (rule sortSlice_sorted)
  show "mset (out_processes r3) = mset ps"
    unfolding rr_props(5)[OF r] by (rule sortSlice_mset)
qed

theorem input_list_effect_witness:
  "SJFSchedule [proc 1 3 2 0, proc 2 0 1 0] \<noteq> None
   \<and> SJFPrioritySchedule [proc 1 3 2 0, proc 2 0 1 0] \<noteq> None
   \<and> RRSchedule [proc 1 3 2 0, proc 2 0 1 0] \<noteq> None
   \<and> out_processes (FCFSSchedule [proc 1 3 2 0, proc 2 0 1 0]) = [proc 1 3 2 0, proc 2 0 1 0]
   \<and> out_processes (the (SJFSchedule [proc 1 3 2 0, proc 2 0 1 0])) = [proc 1 3 2 0, proc 2 0 1 0]
   \<and> out_processes (the (SJFPrioritySchedule [proc 1 3 2 0, proc 2 0 1 0])) = [proc 1 3 2 0, proc 2 0 1 0]
   \<and> out_processes (the (RRSchedule [proc 1 3 2 0, proc 2 0 1 0])) = [proc 2 0 1 0, proc 1 3 2 0]
   \<and> sorted (map ArrivalTime (out_processes (the (RRSchedule [proc 1 3 2 0, proc 2 0 1 0]))))
   \<and> mset (out_processes (the (RRSchedule [proc 1 3 2 0, proc 2 0 1 0]))) = mset [proc 1 3 2 0, proc 2 0 1 0]"
proof -
  let ?ps = "[proc 1 3 2 0, proc 2 0 1 0]"
  have n1: "SJFSchedule ?ps \<noteq> None" by code_simp
  have n2: "SJFPrioritySchedule ?ps \<noteq> None" by code_simp
  have n3: "RRSchedule ?ps \<noteq> None" by code_simp
  have o: "out_processes (the (RRSchedule ?ps)) = [proc 2 0 1 0, proc 1 3 2 0]" by code_simp
  from n1 n2 n3 obtain r1 r2 r3 where r: "SJFSchedule ?ps = Some r1"
    "SJFPrioritySchedule ?ps = Some r2" "RRSchedule ?ps = Some r3" by auto
  from input_list_effect[of ?ps r1 r2 r3] r o show ?thesis by simp
qed

section \<open>Turnaround time, waiting time and burst\<close>

text \<open>
  C9. In every row that FCFSSchedule, SJFSchedule and SJFPrioritySchedule report, the
  turnaround time equals the waiting time plus the burst, and the bursts of the rows are the
  original bursts of the input processes, in order. In every row that RRSchedule reports,
  the waiting time equals the turnaround time minus the burst, and the bursts of the rows
  are the bursts of the processes in the order in which RRSchedule leaves them.
\<close>

theorem turnaround_relation:
  "list_all (\<lambda>r. row_turnaround r = row_wait r + row_burst r) (out_schedule (FCFSSchedule ps))
   \<and> map row_burst (out_schedule (FCFSSchedule ps)) = map BurstDuration ps
   \<and> (SJFSchedule ps = Some r1 \<longrightarrow>
        list_all (\<lambda>r. row_turnaround r = row_wait r + row_burst r) (out_schedule r1)
        \<and> map row_burst (out_schedule r1) = map BurstDuration ps)
   \<and> (SJFPrioritySchedule ps = Some r2 \<longrightarrow>
        list_all (\<lambda>r. row_turnaround r = row_wait r + row_burst r) (out_schedule r2)
        \<and> map row_burst (out_schedule r2) = map BurstDuration ps)
   \<and> (RRSchedule ps = Some r3 \<longrightarrow>
        list_all (\<lambda>r. row_wait r = row_turnaround r - row_burst r) (out_schedule r3)
        \<and> map row_burst (out_schedule r3) = map BurstDuration (out_processes r3))"
proof (intro conjI impI)
  show "list_all (\<lambda>r. row_turnaround r = row_wait r + row_burst r) (out_schedule (FCFSSchedule ps))"
    unfolding fcfs_out_schedule by (rule fcfs_rows_turnaround) (simp add: fcfs_init_def)
  show "map row_burst (out_schedule (FCFSSchedule ps)) = map BurstDuration ps"
    unfolding fcfs_out_schedule by (simp add: fcfs_rows_burst fcfs_init_def)
next
  assume "SJFSchedule ps = Some r1"
  then show "list_all (\<lambda>r. row_turnaround r = row_wait r + row_burst r) (out_schedule r1)"
    "map row_burst (out_schedule r1) = map BurstDuration ps"
    unfolding SJFSchedule_def by (rule sjf_run_props(1), rule sjf_run_props(2))
next
  assume "SJFPrioritySchedule ps = Some r2"
  then show "list_all (\<lambda>r. row_turnaround r = row_wait r + row_burst r) (out_schedule r2)"
    "map row_burst (out_schedule r2) = map BurstDuration ps"
    unfolding SJFPrioritySchedule_def by (rule sjf_run_props(1), rule sjf_run_props(2))
next
  assume "RRSchedule ps = Some r3"
  then show "list_all (\<lambda>r. row_wait r = row_turnaround r - row_burst r) (out_schedule r3)"
    "map row_burst (out_schedule r3) = map BurstDuration (out_processes r3)"
    by (rule rr_props(1), rule rr_props(2))
qed

theorem turnaround_relation_witness:
  "SJFSchedule [proc 1 3 2 0, proc 2 0 1 0] \<noteq> None
   \<and> SJFPrioritySchedule [proc 1 3 2 0, proc 2 0 1 0] \<noteq> None
   \<and> RRSchedule [proc 1 3 2 0, proc 2 0 1 0] \<noteq> None
   \<and> list_all (\<lambda>r. row_turnaround r = row_wait r + row_burst r)
       (out_schedule (the (SJFSchedule [proc 1 3 2 0, proc 2 0 1 0])))
   \<and> map row_burst (out_schedule (the (SJFSchedule [proc 1 3 2 0, proc 2 0 1 0]))) = [2, 1]
   \<and> list_all (\<lambda>r. row_turnaround r = row_wait r + row_burst r)
       (out_schedule (the (SJFPrioritySchedule [proc 1 3 2 0, proc 2 0 1 0])))
   \<and> map row_burst (out_schedule (the (SJFPrioritySchedule [proc 1 3 2 0, proc 2 0 1 0]))) = [2, 1]
   \<and> list_all (\<lambda>r. row_wait r = row_turnaround r - row_burst r)
       (out_schedule (the (RRSchedule [proc 1 3 2 0, proc 2 0 1 0])))
   \<and> map row_burst (out_schedule (the (RRSchedule [proc 1 3 2 0, proc 2 0 1 0])))
       = map BurstDuration (out_processes (the (RRSchedule [proc 1 3 2 0, proc 2 0 1 0])))"
proof -
  let ?ps = "[proc 1 3 2 0, proc 2 0 1 0]"
  have n1: "SJFSchedule ?ps \<noteq> None" by code_simp
  have n2: "SJFPrioritySchedule ?ps \<noteq> None" by code_simp
  have n3: "RRSchedule ?ps \<noteq> None" by code_simp
  from n1 n2 n3 obtain r1 r2 r3 where r: "SJFSchedule ?ps = Some r1"
    "SJFPrioritySchedule ?ps = Some r2" "RRSchedule ?ps = Some r3" by auto
  from turnaround_relation[of ?ps r1 r2 r3] r show ?thesis by (simp add: proc_def)
qed

section \<open>Degenerate input\<close>





end
